theory Spec2Isabelle
  imports
    Main
    "HOL-Library.Sublist"
    "HOL-Library.Char_ord"
    "HOL-Library.List_Lexorder"
    "HOL-Library.Product_Lexorder"
    "HOL-Library.Multiset"
begin

section \<open>Strings as Python sees them\<close>

text \<open>
  A Python \<open>str\<close> is modelled as a \<open>string\<close> whose characters stand for the code points
  0 to 255. On that range \<open>str.strip()\<close> and the regular expression class \<open>\\s\<close> use the
  same white space test (9 to 13, 28 to 32, 133 and 160), \<open>\\d\<close> is \<open>0\<close> to \<open>9\<close> and
  \<open>[A-Z]\<close> is the ASCII upper case range.
\<close>

definition is_space :: "char \<Rightarrow> bool" where
  "is_space c =
     (let n = (of_char c :: nat)
      in (9 \<le> n \<and> n \<le> 13) \<or> (28 \<le> n \<and> n \<le> 32) \<or> n = 133 \<or> n = 160)"

definition is_digit :: "char \<Rightarrow> bool" where
  "is_digit c = (let n = (of_char c :: nat) in 48 \<le> n \<and> n \<le> 57)"

definition is_upper :: "char \<Rightarrow> bool" where
  "is_upper c = (let n = (of_char c :: nat) in 65 \<le> n \<and> n \<le> 90)"

definition newline :: char where
  "newline = CHR 0x0A"

definition strip :: "string \<Rightarrow> string" where
  "strip s = rev (dropWhile is_space (rev (dropWhile is_space s)))"

text \<open>\<open>sub in s\<close> on strings.\<close>

fun contains :: "string \<Rightarrow> string \<Rightarrow> bool" where
  "contains sub [] = (sub = [])"
| "contains sub (c # cs) = (prefix sub (c # cs) \<or> contains sub cs)"

text \<open>\<open>str.lower()\<close> on the code points 0 to 255.\<close>

definition lower_char :: "char \<Rightarrow> char" where
  "lower_char c =
     (let n = (of_char c :: nat)
      in if (65 \<le> n \<and> n \<le> 90) \<or> (192 \<le> n \<and> n \<le> 222 \<and> n \<noteq> 215)
         then char_of (n + 32) else c)"

definition lower :: "string \<Rightarrow> string" where
  "lower s = map lower_char s"

section \<open>Table cells\<close>

text \<open>
  A cell of an extracted table grid is \<open>None\<close> or a string. \<open>truthy\<close> is Python's truth
  value of a cell, \<open>str_of\<close> is \<open>str(cell)\<close>.
\<close>

type_synonym cell = "string option"

definition truthy :: "cell \<Rightarrow> bool" where
  "truthy c = (case c of None \<Rightarrow> False | Some s \<Rightarrow> s \<noteq> [])"

definition str_of :: "cell \<Rightarrow> string" where
  "str_of c = (case c of None \<Rightarrow> ''None'' | Some s \<Rightarrow> s)"

section \<open>The table structure (extract\_cnssi\_1253.py)\<close>

datatype cia = C | I | A

datatype level = L | M | H

text \<open>
  \<open>TableStructure.ranges\<close> is a dict from a range name to an inclusive pair of columns.
  Every name is built as \<open>f'{cia}-{level}'\<close> from \<open>cia_list\<close> and an \<open>L\<close>, \<open>M\<close> or
  \<open>H\<close> token, so a name is modelled as the pair. The dict is an association list in
  insertion order; \<open>dict_set\<close> is \<open>d[k] = v\<close>, which keeps the place of a key already there.
\<close>

type_synonym range_name = "cia \<times> level"

type_synonym ranges = "(range_name \<times> (nat \<times> nat)) list"

fun dict_set :: "'k \<Rightarrow> 'v \<Rightarrow> ('k \<times> 'v) list \<Rightarrow> ('k \<times> 'v) list" where
  "dict_set k v [] = [(k, v)]"
| "dict_set k v (p # ps) = (if fst p = k then (k, v) # ps else p # dict_set k v ps)"

record table_structure =
  ranges :: ranges
  justification_col :: "nat option"
  param_value_col :: "nat option"

definition level_token :: "cell \<Rightarrow> level option" where
  "level_token c =
     (if truthy c then
        (let t = strip (str_of c)
         in if t = ''L'' then Some L else if t = ''M'' then Some M
            else if t = ''H'' then Some H else None)
      else None)"

text \<open>\<open>lmh_positions\<close>: the columns of the third header row that hold a level token.\<close>

definition lmh_positions :: "cell list \<Rightarrow> (nat \<times> level) list" where
  "lmh_positions row =
     List.map_filter (\<lambda>(i, c). map_option (\<lambda>l. (i, l)) (level_token c)) (enumerate 0 row)"

text \<open>
  The inner \<open>for ... else\<close>: the range of a token ends one column before the first
  token to its right, and at \<open>col + 2\<close> when there is none.
\<close>

definition end_col :: "(nat \<times> level) list \<Rightarrow> nat \<Rightarrow> nat" where
  "end_col ps col =
     (case find (\<lambda>(next_col, next_level). next_col > col) ps of
        Some (next_col, next_level) \<Rightarrow> next_col - 1
      | None \<Rightarrow> col + 2)"

definition cia_list :: "cia list" where
  "cia_list = [C, I, A]"

text \<open>
  The loop over \<open>lmh_positions\<close>, with its state \<open>(cia_idx, level_count, ranges)\<close>.
\<close>

fun group_levels ::
  "(nat \<times> level) list \<Rightarrow> (nat \<times> level) list \<Rightarrow> nat \<Rightarrow> nat \<Rightarrow> ranges \<Rightarrow> ranges" where
  "group_levels all_ps [] cia_idx level_count rs = rs"
| "group_levels all_ps ((col, lvl) # ps) cia_idx level_count rs =
     (if cia_idx < length cia_list then
        (let rs' = dict_set (cia_list ! cia_idx, lvl) (col, end_col all_ps col) rs
         in if level_count + 1 \<ge> 3
            then group_levels all_ps ps (cia_idx + 1) 0 rs'
            else group_levels all_ps ps cia_idx (level_count + 1) rs')
      else group_levels all_ps ps cia_idx level_count rs)"

text \<open>
  The scan of the top header row: the last cell that mentions \<open>justification\<close> and the
  last cell that mentions \<open>parameter\<close> but not \<open>justification\<close>.
\<close>

fun text_columns :: "(nat \<times> cell) list \<Rightarrow> nat option \<times> nat option \<Rightarrow> nat option \<times> nat option" where
  "text_columns [] jp = jp"
| "text_columns ((i, c) # ics) (j, p) =
     (if truthy c then
        (let cell_str = lower (strip (str_of c))
         in if contains ''justification'' cell_str then text_columns ics (Some i, p)
            else if contains ''parameter'' cell_str then text_columns ics (j, Some i)
            else text_columns ics (j, p))
      else text_columns ics (j, p))"

text \<open>
  \<open>detect_table_structure\<close>. The positions of the \<open>C\<close>, \<open>I\<close>, \<open>A\<close> tokens of the second
  row are collected by the source into a local dict that nothing reads, so they do not
  appear here.
\<close>

definition detect_table_structure :: "cell list list \<Rightarrow> table_structure" where
  "detect_table_structure header_rows =
     (let rs = (if length header_rows \<ge> 3
                then (let ps = lmh_positions (header_rows ! 2) in group_levels ps ps 0 0 [])
                else []);
          jp = (if length header_rows \<ge> 1
                then text_columns (enumerate 0 (header_rows ! 0)) (None, None)
                else (None, None))
      in \<lparr>ranges = rs, justification_col = fst jp, param_value_col = snd jp\<rparr>)"

section \<open>Rows of the control table (extract\_cnssi\_1253.py)\<close>

record levels =
  low :: bool
  moderate :: bool
  high :: bool

record selections =
  confidentiality :: levels
  integrity :: levels
  availability :: levels
  special_text :: "string option"

text \<open>
  The dict returned for a row. The key \<open>withdrawn\<close> is either absent (\<open>None\<close>) or holds
  \<open>True\<close>.
\<close>

record control_record =
  control_id :: string
  title :: string
  selected :: bool
  selections :: selections
  parameter_value :: "string option"
  justification :: "string option"
  withdrawn :: "bool option"

text \<open>The regular expression \<open>^[A-Z]{2}-\\d+(\\(\\d+\\))?$\<close>, piece by piece.\<close>

definition digits1 :: "string \<Rightarrow> string option" where
  \<comment> \<open>\<open>\\d+\<close>, greedy: the rest of the input after the digits\<close>
  "digits1 s = (if takeWhile is_digit s = [] then None else Some (dropWhile is_digit s))"

definition at_end :: "string \<Rightarrow> bool" where
  \<comment> \<open>\<open>$\<close>: at the end, or before a newline that ends the string\<close>
  "at_end s = (s = [] \<or> s = [newline])"

definition enh_suffix :: "string \<Rightarrow> string option" where
  \<comment> \<open>\<open>\\(\\d+\\)\<close>\<close>
  "enh_suffix s =
     (case s of
        [] \<Rightarrow> None
      | c # r \<Rightarrow>
          if c = CHR ''('' then
            (case digits1 r of
               None \<Rightarrow> None
             | Some [] \<Rightarrow> None
             | Some (d # r') \<Rightarrow> if d = CHR '')'' then Some r' else None)
          else None)"

definition row_id_match :: "string \<Rightarrow> bool" where
  "row_id_match s =
     (case s of
        a # b # h # r \<Rightarrow>
          is_upper a \<and> is_upper b \<and> h = CHR ''-'' \<and>
          (case digits1 r of
             None \<Rightarrow> False
           | Some r1 \<Rightarrow>
               (case enh_suffix r1 of
                  Some r2 \<Rightarrow> at_end r2 \<or> at_end r1
                | None \<Rightarrow> at_end r1))
      | _ \<Rightarrow> False)"

text \<open>
  What one cell gives as a control identifier: the cell is not empty and its stripped
  text matches.
\<close>

definition cell_control_id :: "cell \<Rightarrow> string option" where
  "cell_control_id c =
     (if truthy c then
        (let potential_id = strip (str_of c)
         in if row_id_match potential_id then Some potential_id else None)
      else None)"

text \<open>The scan of the first four cells; the result is the identifier and its column.\<close>

fun scan_id :: "nat \<Rightarrow> cell list \<Rightarrow> (string \<times> nat) option" where
  "scan_id i [] = None"
| "scan_id i (c # cs) =
     (case cell_control_id c of Some cid \<Rightarrow> Some (cid, i) | None \<Rightarrow> scan_id (Suc i) cs)"

definition find_control_id :: "cell list \<Rightarrow> (string \<times> nat) option" where
  "find_control_id row = scan_id 0 (take 4 row)"

text \<open>The title: the first cell with text among the four after the identifier.\<close>

definition find_title :: "cell list \<Rightarrow> nat \<Rightarrow> string" where
  "find_title row control_col_idx =
     (case filter (\<lambda>c. truthy c \<and> strip (str_of c) \<noteq> [])
             (take 4 (drop (Suc control_col_idx) row)) of
        [] \<Rightarrow> []
      | c # _ \<Rightarrow> strip (str_of c))"

definition family_of :: "string \<Rightarrow> string" where
  \<comment> \<open>\<open>control_id.split('-')[0]\<close>\<close>
  "family_of cid = takeWhile (\<lambda>c. c \<noteq> CHR ''-'') cid"

definition pm_text :: string where
  "pm_text = ''Deployed organization-wide. Supports information security program. Not associated with security control baselines. Independent of any system impact level.''"

definition pt_text :: string where
  "pt_text = ''Personally Identifiable Information Processing and Transparency control are not allocated to the security control baselines.''"

definition no_levels :: levels where
  "no_levels = \<lparr>low = False, moderate = False, high = False\<rparr>"

definition init_selections :: selections where
  "init_selections =
     \<lparr>confidentiality = no_levels, integrity = no_levels, availability = no_levels,
      special_text = None\<rparr>"

definition is_selected :: "cell \<Rightarrow> bool" where
  "is_selected val =
     (case val of
        None \<Rightarrow> False
      | Some s \<Rightarrow> (let val_str = strip s in val_str = ''X'' \<or> val_str = ''+''))"

definition set_level :: "level \<Rightarrow> levels \<Rightarrow> levels" where
  "set_level lvl ls =
     (case lvl of L \<Rightarrow> ls\<lparr>low := True\<rparr> | M \<Rightarrow> ls\<lparr>moderate := True\<rparr>
      | H \<Rightarrow> ls\<lparr>high := True\<rparr>)"

definition set_selection :: "cia \<Rightarrow> level \<Rightarrow> selections \<Rightarrow> selections" where
  "set_selection x lvl sel =
     (case x of
        C \<Rightarrow> sel\<lparr>confidentiality := set_level lvl (confidentiality sel)\<rparr>
      | I \<Rightarrow> sel\<lparr>integrity := set_level lvl (integrity sel)\<rparr>
      | A \<Rightarrow> sel\<lparr>availability := set_level lvl (availability sel)\<rparr>)"

text \<open>A marked column sets the boolean of the first range that holds it.\<close>

definition mark_column :: "ranges \<Rightarrow> nat \<Rightarrow> selections \<Rightarrow> selections" where
  "mark_column rs col_idx sel =
     (case find (\<lambda>(range_name, (start, stop)). start \<le> col_idx \<and> col_idx \<le> stop) rs of
        None \<Rightarrow> sel
      | Some ((x, lvl), _) \<Rightarrow> set_selection x lvl sel)"

definition row_selections :: "ranges \<Rightarrow> cell list \<Rightarrow> selections" where
  "row_selections rs row =
     fold (\<lambda>(col_idx, cell) sel. if is_selected cell then mark_column rs col_idx sel else sel)
       (enumerate 0 row) init_selections"

text \<open>
  The justification and the parameter value are read by the same code, one copy for
  each. The column is used only when it is truthy, so neither \<open>None\<close> nor \<open>0\<close>.
\<close>

definition column_text :: "nat option \<Rightarrow> cell list \<Rightarrow> string option" where
  "column_text col row =
     (case col of
        None \<Rightarrow> None
      | Some j \<Rightarrow>
          if j \<noteq> 0 \<and> j < length row then
            (let cell = row ! j
             in if truthy cell then
                  (let t = strip (str_of cell)
                   in if t \<noteq> [] \<and> t \<notin> set [[], ''None'', ''X'', ''+''] then Some t else None)
                else None)
          else None)"

definition any_level :: "levels \<Rightarrow> bool" where
  "any_level ls = (low ls \<or> moderate ls \<or> high ls)"

definition any_selection :: "selections \<Rightarrow> bool" where
  "any_selection sel =
     (any_level (confidentiality sel) \<or> any_level (integrity sel) \<or> any_level (availability sel))"

definition is_withdrawn :: "cell list \<Rightarrow> bool" where
  "is_withdrawn row = list_ex (\<lambda>cell. truthy cell \<and> contains ''Withdrawn'' (str_of cell)) row"

text \<open>
  The body of \<open>parse_control_row\<close> after the withdrawn test of line 85, as a function of
  the local \<open>is_withdrawn\<close> (here \<open>wd\<close>), which the body reads in two places only: where it
  forces \<open>selected\<close> and where it adds the key \<open>withdrawn\<close>.
\<close>

definition classify_row :: "bool \<Rightarrow> cell list \<Rightarrow> table_structure \<Rightarrow> control_record option" where
  "classify_row wd row structure =
     (case find_control_id row of
        None \<Rightarrow> None
      | Some (cid, control_col_idx) \<Rightarrow>
          (let ttl = find_title row control_col_idx;
               family = family_of cid;
               special_case_text =
                 (if family = ''PM'' then Some pm_text
                  else if family = ''PT'' then Some pt_text else None);
               sel = row_selections (ranges structure) row;
               just = column_text (justification_col structure) row;
               param = column_text (param_value_col structure) row;
               sel0 = any_selection sel;
               sel1 = (if family = ''PM'' then True
                       else if family = ''PT'' then False else sel0);
               sel2 = (if wd then False else sel1);
               sel' = (case special_case_text of
                         None \<Rightarrow> sel
                       | Some t \<Rightarrow> sel\<lparr>special_text := Some t\<rparr>)
           in Some \<lparr>control_id = cid, title = ttl, selected = sel2, selections = sel',
                    parameter_value = param, justification = just,
                    withdrawn = (if wd then Some True else None)\<rparr>))"

definition parse_control_row :: "cell list \<Rightarrow> table_structure \<Rightarrow> control_record option" where
  "parse_control_row row structure =
     (if row = [] \<or> length row < 10 then None
      else classify_row (is_withdrawn row) row structure)"

subsection \<open>Rows without the withdrawn marker\<close>






subsection \<open>Sample rows and structures\<close>

definition sample_structure :: table_structure where
  "sample_structure =
     \<lparr>ranges = [((C, L), (3, 3)), ((C, M), (4, 4)), ((C, H), (5, 5)),
                ((I, L), (6, 6)), ((I, M), (7, 7)), ((I, H), (8, 8)),
                ((A, L), (9, 9)), ((A, M), (10, 10)), ((A, H), (11, 13))],
      justification_col = Some 12, param_value_col = Some 13\<rparr>"

definition withdrawn_pm_row :: "cell list" where
  "withdrawn_pm_row =
     [Some ''PM-1'', Some ''Program Plan'', None, Some ''X'', Some '''', Some ''+'', None, None,
      None, None, None, None, Some ''Withdrawn'', None]"

definition withdrawn_pm_record :: control_record where
  "withdrawn_pm_record =
     \<lparr>control_id = ''PM-1'', title = ''Program Plan'', selected = False,
      selections =
        \<lparr>confidentiality = \<lparr>low = True, moderate = False, high = True\<rparr>,
         integrity = no_levels, availability = no_levels, special_text = Some pm_text\<rparr>,
      parameter_value = None, justification = Some ''Withdrawn'', withdrawn = Some True\<rparr>"

definition title_withdrawn_pm_row :: "cell list" where
  "title_withdrawn_pm_row =
     [Some ''PM-8'', Some ''[Withdrawn: Incorporated into PM-9]'', None, None, None, None,
      None, None, None, None, None, None, None, None]"

definition plain_pm_row :: "cell list" where
  "plain_pm_row =
     [Some ''PM-2'', Some ''Senior Information Security Officer'', None, None, None, None,
      None, None, None, None, None, None, None, None]"

definition marked_pt_row :: "cell list" where
  "marked_pt_row =
     [Some ''PT-3'', Some ''Processing Purposes'', None, Some ''X'', Some ''X'', Some ''X'',
      None, None, None, None, None, None, None, None]"

definition left_text_header :: "cell list list" where
  "left_text_header =
     [[Some ''Justification for NSS'', Some ''ID'', Some ''Title'', None, None, None, None,
       None, None, None, None, None],
      [None, None, None, Some ''C'', None, None, Some ''I'', None, None, Some ''A'', None, None],
      [None, None, None, Some ''L'', Some ''M'', Some ''H'', Some ''L'', Some ''M'', Some ''H'',
       Some ''L'', Some ''M'', Some ''H'']]"

definition left_param_header :: "cell list list" where
  "left_param_header =
     [[Some ''Parameter Value'', Some ''ID'', Some ''Title'', None, None, None, None,
       None, None, None, None, None]]"

definition left_text_row :: "cell list" where
  "left_text_row =
     [Some ''NSS Best Practice'', Some ''AC-3'', Some ''Access Enforcement'', Some ''X'', None,
      None, None, None, None, None, None, None]"

definition by_level_header :: "cell list list" where
  "by_level_header =
     [[Some ''ID'', Some ''Title'', None, None, None, None, None, None, None, None, None, None],
      [None, None, None, Some ''C'', None, None, Some ''I'', None, None, Some ''A'', None, None],
      [None, None, None, Some ''L'', Some ''L'', Some ''L'', Some ''M'', Some ''M'', Some ''M'',
       Some ''H'', Some ''H'', Some ''H'']]"



section \<open>The identifier grammar of the specification\<close>

text \<open>
  The grammar \<open>LETTERS '-' DIGITS ['(' DIGITS ')']\<close> as the specification words it,
  with the number of letters as a parameter: \<open>identifier_form\<close> builds the string from
  its parts and \<open>identifier_parts n\<close> says that the parts are well formed with \<open>n\<close>
  letters. It is compared below with the matcher of \<open>parse_control_row\<close>.
\<close>

definition identifier_form :: "string \<Rightarrow> string \<Rightarrow> string option \<Rightarrow> string" where
  "identifier_form ls ds e =
     ls @ ''-'' @ ds @ (case e of None \<Rightarrow> [] | Some es \<Rightarrow> ''('' @ es @ '')'')"

definition identifier_parts :: "nat \<Rightarrow> string \<Rightarrow> string \<Rightarrow> string option \<Rightarrow> bool" where
  "identifier_parts n ls ds e =
     (length ls = n \<and> list_all is_upper ls \<and> ds \<noteq> [] \<and> list_all is_digit ds \<and>
      (case e of None \<Rightarrow> True | Some es \<Rightarrow> es \<noteq> [] \<and> list_all is_digit es))"

section \<open>The catalog sorter (nist\_sorter.py)\<close>

text \<open>
  \<open>int(s)\<close> on a string of the digits \<open>0\<close> to \<open>9\<close>. Python's limit on the number of
  digits that \<open>int\<close> converts is not modelled.
\<close>

definition digit_val :: "char \<Rightarrow> nat" where
  "digit_val c = of_char c - 48"

definition int_of_digits :: "string \<Rightarrow> nat" where
  "int_of_digits ds = foldl (\<lambda>n c. 10 * n + digit_val c) 0 ds"

text \<open>
  \<open>parse_control_id\<close>: the regular expression \<open>^([A-Z]{2,3})-(\\d+)(?:\\((\\d+)\\))?$\<close> and
  the conversion of its groups. \<open>None\<close> stands for the \<open>ValueError\<close>. Two or three
  letters are taken, as many as there are, and a hyphen has to follow them.
\<close>

definition parse_control_id :: "string \<Rightarrow> (string \<times> nat \<times> nat) option" where
  "parse_control_id cid =
     (let family = take 3 (takeWhile is_upper cid);
          r = drop (length family) cid
      in if length family < 2 then None
         else
           (case r of
              [] \<Rightarrow> None
            | h # r0 \<Rightarrow>
                if h \<noteq> CHR ''-'' then None
                else
                  (case digits1 r0 of
                     None \<Rightarrow> None
                   | Some r1 \<Rightarrow>
                       (let base_number = int_of_digits (takeWhile is_digit r0)
                        in case enh_suffix r1 of
                             Some r2 \<Rightarrow>
                               if at_end r2
                               then Some (family, base_number,
                                          int_of_digits (takeWhile is_digit (tl r1)))
                               else if at_end r1 then Some (family, base_number, 0)
                               else None
                           | None \<Rightarrow>
                               if at_end r1 then Some (family, base_number, 0) else None))))"

text \<open>
  A control is a dict; the sorter reads its key \<open>id\<close> only (\<open>None\<close> when the key is
  absent), and the other keys are the extension of the record.
\<close>

record control =
  ctl_id :: "string option"

definition control_sort_key :: "'a control_scheme \<Rightarrow> string \<times> nat \<times> nat" where
  "control_sort_key c =
     (case parse_control_id (case ctl_id c of None \<Rightarrow> [] | Some s \<Rightarrow> s) of
        Some k \<Rightarrow> k
      | None \<Rightarrow> (''ZZZ'', 9999, 9999))"

text \<open>\<open>sorted(controls, key=sort_key)\<close>: a stable sort by the key.\<close>

definition sort_controls :: "'a control_scheme list \<Rightarrow> 'a control_scheme list" where
  "sort_controls controls = sort_key control_sort_key controls"

definition sample_controls :: "control list" where
  "sample_controls =
     map (\<lambda>s. \<lparr>ctl_id = Some s\<rparr>) [''AC-1'', ''AC-2'', ''AC-10'', ''AC-1(1)'', ''AC-1(10)'']"

text \<open>
  The natural order of the specification on the triples of family, base number and
  enhancement number: by family (strings compare by code points, as in Python), then by
  base number, then by enhancement number.
\<close>

definition natural_le :: "string \<times> nat \<times> nat \<Rightarrow> string \<times> nat \<times> nat \<Rightarrow> bool" where
  "natural_le k k' =
     (case (k, k') of
        ((f, b, e), (f', b', e')) \<Rightarrow> f < f' \<or> (f = f' \<and> (b < b' \<or> (b = b' \<and> e \<le> e'))))"

text \<open>
  The key that the grammar gives to an identifier built from its parts: the letters, the
  value of the digits, and the value of the digits in parentheses, or 0 without them.
\<close>

definition identifier_key :: "string \<Rightarrow> string \<Rightarrow> string option \<Rightarrow> string \<times> nat \<times> nat" where
  "identifier_key ls ds e =
     (ls, int_of_digits ds, (case e of None \<Rightarrow> 0 | Some es \<Rightarrow> int_of_digits es))"

text \<open>A control is valid when its identifier is one of the grammar, with 2 or 3 letters.\<close>

definition valid_control :: "'a control_scheme \<Rightarrow> bool" where
  "valid_control c =
     (\<exists>n ls ds e. (n = 2 \<or> n = 3) \<and> identifier_parts n ls ds e
                  \<and> ctl_id c = Some (identifier_form ls ds e))"

section \<open>The record stores\<close>

subsection \<open>The store of the coordinate pipeline (cnssi\_1253\_overlay\_extractor.py)\<close>

text \<open>
  \<open>control_data\<close> is the dict that \<open>_parse_control_group\<close> returns, \<open>stored_control\<close> the
  dict kept in \<open>self.controls\<close> under the identifier.
\<close>

record control_data =
  cd_id :: string
  cd_control_text :: string
  cd_defined_value :: string

record stored_control =
  control_text :: string
  defined_value :: string

type_synonym control_store = "string \<rightharpoonup> stored_control"

text \<open>A string that \<open>strip\<close> leaves as it is, as every result of \<open>strip\<close> is.\<close>

definition stripped :: "string \<Rightarrow> bool" where
  "stripped s = (strip s = s)"

text \<open>
  One text field of the merge of lines 195 to 205: an incoming text that is empty or
  blank leaves the field as it is; otherwise it is appended after a space and the result
  stripped, or it is stored as it is when the field is empty.
\<close>

definition merge_text :: "string \<Rightarrow> string \<Rightarrow> string" where
  "merge_text existing incoming =
     (if incoming \<noteq> [] \<and> strip incoming \<noteq> [] then
        (if existing \<noteq> [] then strip (existing @ '' '' @ incoming) else incoming)
      else existing)"

text \<open>Lines 182 to 205 of \<open>_finalize_current_control\<close>: insert, or merge field by field.\<close>

definition upsert_control :: "control_store \<Rightarrow> control_data \<Rightarrow> control_store" where
  "upsert_control controls d =
     (case controls (cd_id d) of
        None \<Rightarrow>
          controls(cd_id d \<mapsto>
            \<lparr>control_text = cd_control_text d, defined_value = cd_defined_value d\<rparr>)
      | Some existing \<Rightarrow>
          controls(cd_id d \<mapsto>
            \<lparr>control_text = merge_text (control_text existing) (cd_control_text d),
             defined_value = merge_text (defined_value existing) (cd_defined_value d)\<rparr>))"

text \<open>
  The state of the extractor, over any type of text elements, and
  \<open>_finalize_current_control\<close> with \<open>_parse_control_group\<close> as a parameter (it reads the
  coordinates of the elements; \<open>None\<close> is its \<open>None\<close> or an exception, which the
  \<open>try\<close> catches). The texts it returns are results of \<open>strip\<close>.
\<close>

record 'e extractor_state =
  controls :: control_store
  current_control_id :: "string option"
  current_control_elements :: "'e list"

definition finalize_current_control ::
  "('e list \<Rightarrow> nat \<Rightarrow> control_data option) \<Rightarrow> nat \<Rightarrow> 'e extractor_state \<Rightarrow> 'e extractor_state" where
  "finalize_current_control parse_control_group last_page st =
     (if current_control_id st = None \<or> current_control_id st = Some []
         \<or> current_control_elements st = []
      then st
      else
        (let controls' =
               (case parse_control_group (current_control_elements st) last_page of
                  None \<Rightarrow> controls st
                | Some control_data \<Rightarrow> upsert_control (controls st) control_data)
         in st\<lparr>controls := controls', current_control_id := None,
                current_control_elements := []\<rparr>))"

subsection \<open>The store of the table pipeline (extract\_cnssi\_1253.py)\<close>

text \<open>
  The loop of \<open>extract_cnssi_1253_2022\<close> over the records of a page:
  \<open>all_controls[control_id] = control\<close>.
\<close>

definition store_page_controls ::
  "(string \<rightharpoonup> control_record) \<Rightarrow> control_record list \<Rightarrow> (string \<rightharpoonup> control_record)" where
  "store_page_controls all_controls cs = fold (\<lambda>c m. m(control_id c \<mapsto> c)) cs all_controls"

definition fragment_row :: "string \<Rightarrow> cell list" where
  "fragment_row j =
     [Some ''AC-2'', Some ''Account Management'', None, Some ''X'', None, None, None, None,
      None, None, None, None, Some j, None]"

definition sample_store :: control_store where
  "sample_store =
     Map.empty(''AC-2'' \<mapsto> \<lparr>control_text = ''Account Management'', defined_value = []\<rparr>)"

section \<open>The free-text line pipeline (classified\_information\_overlay\_extractor.py)\<close>

subsection \<open>The regular expressions\<close>

text \<open>\<open>(.+)$\<close>: one or more characters other than a newline, up to the end; the group.\<close>

definition dot_plus_end :: "string \<Rightarrow> string option" where
  "dot_plus_end t =
     (let u = takeWhile (\<lambda>c. c \<noteq> newline) t; r = dropWhile (\<lambda>c. c \<noteq> newline) t
      in if u \<noteq> [] \<and> at_end r then Some u else None)"

text \<open>The first element of a list of attempts that succeeds.\<close>

fun first_some :: "('a \<Rightarrow> 'b option) \<Rightarrow> 'a list \<Rightarrow> 'b option" where
  "first_some f [] = None"
| "first_some f (x # xs) = (case f x of Some y \<Rightarrow> Some y | None \<Rightarrow> first_some f xs)"

text \<open>
  \<open>\\s*(.+)$\<close>: the white space is taken greedily and given back one character at a time
  until the rest matches.
\<close>

definition ws_then_rest :: "string \<Rightarrow> string option" where
  "ws_then_rest r =
     first_some (\<lambda>w. dot_plus_end (drop w r)) (rev [0..<Suc (length (takeWhile is_space r))])"

text \<open>\<open>,?\\s*(.+)$\<close>: the comma is taken first and given back when the rest fails.\<close>

definition comma_ws_rest :: "string \<Rightarrow> string option" where
  "comma_ws_rest r =
     (case r of
        [] \<Rightarrow> ws_then_rest r
      | c # r' \<Rightarrow>
          if c = CHR '','' then
            (case ws_then_rest r' of Some g \<Rightarrow> Some g | None \<Rightarrow> ws_then_rest r)
          else ws_then_rest r)"

text \<open>
  \<open>^([A-Z]{2}-\\d{1,2}),?\\s*(.+)$\<close>: two digits are tried before one. The result is the
  pair of the groups.
\<close>

definition base_control_match :: "string \<Rightarrow> (string \<times> string) option" where
  "base_control_match s =
     (case s of
        a # b # h # r0 \<Rightarrow>
          if is_upper a \<and> is_upper b \<and> h = CHR ''-'' then
            first_some
              (\<lambda>d. map_option (\<lambda>g. (a # b # h # take d r0, g)) (comma_ws_rest (drop d r0)))
              (rev [1..<Suc (length (takeWhile is_digit (take 2 r0)))])
          else None
      | _ \<Rightarrow> None)"

text \<open>A literal of the pattern under \<open>re.IGNORECASE\<close>; the result is the rest of the input.\<close>

definition lit_ci :: "string \<Rightarrow> string \<Rightarrow> string option" where
  "lit_ci l s =
     (if length l \<le> length s \<and> lower (take (length l) s) = lower l
      then Some (drop (length l) s) else None)"

definition ws_star :: "string \<Rightarrow> string" where
  "ws_star s = dropWhile is_space s"

definition ws_plus :: "string \<Rightarrow> string option" where
  "ws_plus s = (if takeWhile is_space s = [] then None else Some (dropWhile is_space s))"

text \<open>
  \<open>(?:,\\s*\\d+)*\<close>, greedy: the rest of the input after the longest run of further
  numbers.
\<close>

function number_tail :: "string \<Rightarrow> string" where
  "number_tail s =
     (case s of
        [] \<Rightarrow> s
      | c # r \<Rightarrow>
          if c = CHR '','' then
            (case digits1 (dropWhile is_space r) of
               Some r' \<Rightarrow> number_tail r'
             | None \<Rightarrow> s)
          else s)"
  by pat_completeness auto
termination
proof (relation "measure length")
  show "wf (measure length)" by simp
next
  fix s :: string and c r r'
  assume "s = c # r" and "digits1 (dropWhile is_space r) = Some r'"
  then have "r' = dropWhile is_digit (dropWhile is_space r)"
    by (auto simp: digits1_def split: if_splits)
  then have "length r' \<le> length r"
    by (metis length_dropWhile_le order_trans)
  with \<open>s = c # r\<close> show "(r', s) \<in> measure length" by simp
qed

declare number_tail.simps [simp del]

text \<open>\<open>(\\d+(?:,\\s*\\d+)*)\<close>: the group and the rest of the input.\<close>

definition number_list :: "string \<Rightarrow> (string \<times> string) option" where
  "number_list s =
     (case digits1 s of
        None \<Rightarrow> None
      | Some r \<Rightarrow> (let rest = number_tail r in Some (take (length s - length rest) s, rest)))"

text \<open>The three ways in which the five patterns end after the group.\<close>

datatype pattern_end = At_End | Dot_Star_End | Space_Star_End

definition end_ok :: "pattern_end \<Rightarrow> string \<Rightarrow> bool" where
  "end_ok e rest =
     (case e of
        At_End \<Rightarrow> at_end rest
      | Dot_Star_End \<Rightarrow> at_end (dropWhile (\<lambda>c. c \<noteq> newline) rest)
      | Space_Star_End \<Rightarrow> list_all is_space rest)"

definition numbers_to_end :: "pattern_end \<Rightarrow> string \<Rightarrow> string option" where
  "numbers_to_end e s =
     (case number_list (ws_star s) of
        None \<Rightarrow> None
      | Some (g, rest) \<Rightarrow> if end_ok e rest then Some g else None)"

text \<open>After the words: \<open>\\s*:\<close> and the group, as in the patterns 3, 4 and 5.\<close>

definition colon_numbers :: "pattern_end \<Rightarrow> string \<Rightarrow> string option" where
  "colon_numbers e s =
     (case lit_ci '':'' (ws_star s) of None \<Rightarrow> None | Some r \<Rightarrow> numbers_to_end e r)"

definition enhancement_pattern :: "nat \<Rightarrow> string \<Rightarrow> string option" where
  "enhancement_pattern k s =
     (if k = 1 then
        (case lit_ci ''Control Enhancement:'' s of
           None \<Rightarrow> None | Some r \<Rightarrow> numbers_to_end At_End r)
      else if k = 2 then
        (case lit_ci ''Control'' s of
           None \<Rightarrow> None
         | Some r \<Rightarrow>
             (case ws_plus r of
                None \<Rightarrow> None
              | Some r1 \<Rightarrow>
                  (case lit_ci ''Enhancement:'' r1 of
                     None \<Rightarrow> None | Some r2 \<Rightarrow> numbers_to_end At_End r2)))
      else if k = 3 then
        (case lit_ci ''Control'' s of
           None \<Rightarrow> None
         | Some r \<Rightarrow>
             (case lit_ci ''Enhancement'' (ws_star r) of
                None \<Rightarrow> None | Some r1 \<Rightarrow> colon_numbers At_End r1))
      else if k = 4 then
        (case lit_ci ''Control Enhancement'' s of
           None \<Rightarrow> None | Some r \<Rightarrow> colon_numbers Dot_Star_End r)
      else
        (case lit_ci ''Control Enhancement'' s of
           None \<Rightarrow> None | Some r \<Rightarrow> colon_numbers Space_Star_End r))"

text \<open>
  \<open>_flexible_enhancement_match\<close>: the first of the five patterns that matches; the result
  is its group 1, the list of numbers.
\<close>

definition flexible_enhancement_match :: "string \<Rightarrow> string option" where
  "flexible_enhancement_match line = first_some (\<lambda>k. enhancement_pattern k line) [1, 2, 3, 4, 5]"

text \<open>\<open>s.split(sep)\<close> for a separator of one character.\<close>

fun split_on :: "char \<Rightarrow> string \<Rightarrow> string list" where
  "split_on sep [] = [[]]"
| "split_on sep (c # cs) =
     (if c = sep then [] # split_on sep cs
      else (case split_on sep cs of [] \<Rightarrow> [[c]] | x # xs \<Rightarrow> (c # x) # xs))"

subsection \<open>Attribute labels\<close>

definition known_attributes :: "string list" where
  "known_attributes =
     [''Justification to Select'', ''Supplemental Guidance'', ''Parameter Value(s)'',
      ''Parameter Value'', ''Regulatory/Statutory Reference(s)'', ''Control Extension'',
      ''Control Extension(s)'', ''Control Extension and Parameter Value(s)'']"

definition extract_attribute_from_line :: "string \<Rightarrow> (string \<times> string) option" where
  "extract_attribute_from_line line =
     first_some
       (\<lambda>attr. if prefix (attr @ '':'') line
               then Some (attr, strip (drop (length attr + 1) line)) else None)
       known_attributes"

subsection \<open>The state and the step for one line\<close>

record overlay_control =
  name :: string
  attributes :: "string \<rightharpoonup> string"
  page :: nat

record line_data =
  line_text :: string
  formats :: "bool list"

record classified_state =
  overlay_controls :: "string \<rightharpoonup> overlay_control"
  current_control :: "string option"
  current_base_control :: "string option"
  current_attribute :: "string option"

definition truthy_str :: "string option \<Rightarrow> bool" where
  "truthy_str v = (case v of None \<Rightarrow> False | Some s \<Rightarrow> s \<noteq> [])"

definition enhancement_id :: "string \<Rightarrow> string \<Rightarrow> string" where
  "enhancement_id base num = base @ ''('' @ num @ '')''"

text \<open>
  The loop over the numbers of an enhancement line. The title is read from the base
  control anew for each number, as the source does.
\<close>

fun add_enhancements ::
  "string \<Rightarrow> nat \<Rightarrow> string list \<Rightarrow> (string \<rightharpoonup> overlay_control) \<Rightarrow> (string \<rightharpoonup> overlay_control)" where
  "add_enhancements base page_num [] cs = cs"
| "add_enhancements base page_num (enhancement_num # nums) cs =
     (let num = strip enhancement_num;
          base_name = (case cs base of None \<Rightarrow> [] | Some c \<Rightarrow> name c)
      in add_enhancements base page_num nums
           (cs(enhancement_id base num \<mapsto>
               \<lparr>name = base_name, attributes = Map.empty, page = page_num\<rparr>)))"

text \<open>
  The body of the loop of \<open>_find_controls_and_attributes\<close> for one line. \<open>None\<close> is a
  \<open>KeyError\<close>, which is raised before anything is written and which \<open>_process_page\<close>
  catches. A formatting span of the line is its bold flag.
\<close>

definition line_step :: "nat \<Rightarrow> classified_state \<Rightarrow> line_data \<Rightarrow> classified_state option" where
  "line_step page_num st l =
     (let txt = line_text l;
          is_bold = list_ex (\<lambda>b. b) (formats l);
          base_match = base_control_match txt;
          enhancement_match = flexible_enhancement_match txt
      in if base_match \<noteq> None \<and> is_bold then
           (case base_match of
              None \<Rightarrow> Some st
            | Some (cid, g2) \<Rightarrow>
                Some (st\<lparr>current_control := Some cid, current_base_control := Some cid,
                         current_attribute := None,
                         overlay_controls := (overlay_controls st)(cid \<mapsto>
                           \<lparr>name = strip g2, attributes = Map.empty, page = page_num\<rparr>)\<rparr>))
         else if enhancement_match \<noteq> None then
           (case (enhancement_match, current_base_control st) of
              (Some g, Some base) \<Rightarrow>
                if base \<noteq> [] then
                  (let enhancement_numbers = split_on (CHR '','') g
                   in Some (st\<lparr>overlay_controls :=
                                  add_enhancements base page_num enhancement_numbers
                                    (overlay_controls st),
                                current_control :=
                                  Some (enhancement_id base (strip (last enhancement_numbers))),
                                current_attribute := None\<rparr>))
                else Some st
            | _ \<Rightarrow> Some st)
         else if truthy_str (current_control st) \<and> CHR '':'' \<in> set txt then
           (case extract_attribute_from_line txt of
              None \<Rightarrow> Some st
            | Some (attr_name, attr_content) \<Rightarrow>
                (case overlay_controls st (the (current_control st)) of
                   None \<Rightarrow> None
                 | Some c \<Rightarrow>
                     (case attributes c attr_name of
                        Some old \<Rightarrow>
                          Some (st\<lparr>overlay_controls :=
                                  (overlay_controls st)(the (current_control st) \<mapsto>
                                    c\<lparr>attributes :=
                                        (attributes c)(attr_name \<mapsto>
                                           old @ '' '' @ strip attr_content)\<rparr>)\<rparr>)
                      | None \<Rightarrow>
                          Some (st\<lparr>overlay_controls :=
                                  (overlay_controls st)(the (current_control st) \<mapsto>
                                    c\<lparr>attributes :=
                                        (attributes c)(attr_name \<mapsto> strip attr_content)\<rparr>),
                                   current_attribute := Some attr_name\<rparr>))))
         else if truthy_str (current_control st) \<and> truthy_str (current_attribute st)
                 \<and> strip txt \<noteq> [] then
           (if \<not> (base_match \<noteq> None \<or> enhancement_match \<noteq> None
                   \<or> extract_attribute_from_line txt \<noteq> None) then
              (case overlay_controls st (the (current_control st)) of
                 None \<Rightarrow> None
               | Some c \<Rightarrow>
                   (case attributes c (the (current_attribute st)) of
                      None \<Rightarrow> None
                    | Some old \<Rightarrow>
                        Some (st\<lparr>overlay_controls :=
                                (overlay_controls st)(the (current_control st) \<mapsto>
                                  c\<lparr>attributes :=
                                      (attributes c)(the (current_attribute st) \<mapsto>
                                         old @ '' '' @ strip txt)\<rparr>)\<rparr>)))
            else Some st)
         else Some st)"

text \<open>
  \<open>_find_controls_and_attributes\<close> under the \<open>try\<close> of \<open>_process_page\<close>: the lines of a
  page in order; an exception leaves the rest of the page unread.
\<close>

fun process_page_lines :: "nat \<Rightarrow> classified_state \<Rightarrow> line_data list \<Rightarrow> classified_state" where
  "process_page_lines page_num st [] = st"
| "process_page_lines page_num st (l # ls) =
     (case line_step page_num st l of
        None \<Rightarrow> st
      | Some st' \<Rightarrow> process_page_lines page_num st' ls)"

subsection \<open>Sample lines and states\<close>

definition sample_state :: classified_state where
  "sample_state =
     \<lparr>overlay_controls =
        Map.empty(''AC-3'' \<mapsto>
          \<lparr>name = ''ACCESS ENFORCEMENT'',
           attributes = Map.empty(''Supplemental Guidance'' \<mapsto> ''Systems apply''),
           page = 6\<rparr>),
      current_control = Some ''AC-3'',
      current_base_control = Some ''AC-3'',
      current_attribute = Some ''Supplemental Guidance''\<rparr>"

definition sample_enhancement_line :: line_data where
  "sample_enhancement_line =
     \<lparr>line_text = ''Control Enhancement: 4, 5, 6'', formats = [True]\<rparr>"

text \<open>
  The line of the specification, \<open>Control Enhancement: n[, n...]\<close>: the numbers, each a
  string of one or more digits, joined by a comma and a space.
\<close>

fun join_numbers :: "string list \<Rightarrow> string" where
  "join_numbers [] = []"
| "join_numbers [n] = n"
| "join_numbers (n # m # ns) = n @ '', '' @ join_numbers (m # ns)"

definition is_number :: "string \<Rightarrow> bool" where
  "is_number n = (n \<noteq> [] \<and> list_all is_digit n)"

definition initial_state :: classified_state where
  "initial_state =
     \<lparr>overlay_controls = Map.empty, current_control = None, current_base_control = None,
      current_attribute = None\<rparr>"

definition enhancement_page :: "line_data list" where
  "enhancement_page =
     [\<lparr>line_text = ''AC-3, ACCESS ENFORCEMENT'', formats = [True]\<rparr>,
      \<lparr>line_text = ''Control Enhancement: 4'', formats = [False]\<rparr>,
      \<lparr>line_text = ''Supplemental Guidance: Applies to privileged accounts'',
       formats = [False]\<rparr>]"

definition repeated_enhancement_line :: line_data where
  "repeated_enhancement_line = \<lparr>line_text = ''Control Enhancement: 4, 5'', formats = [False]\<rparr>"

section \<open>The current line pipeline (extract\_classified\_information.py)\<close>

text \<open>
  \<open>parse_control_header\<close>: the regular expression
  \<open>^([A-Z]{2}-\\d{1,2}(?:\\(\\d+\\))?),\\s*(.+)$\<close> on the stripped text. All the digits
  have to be taken, one or two, since a parenthesis or the comma has to follow them.
  The family name in parentheses at the start of the name is removed by
  \<open>^\\([^)]+\\)\\s*(.+)$\<close>.
\<close>

definition strip_family_name :: "string \<Rightarrow> string" where
  "strip_family_name nm =
     (case nm of
        [] \<Rightarrow> nm
      | c # r \<Rightarrow>
          if c = CHR ''('' then
            (let u = takeWhile (\<lambda>x. x \<noteq> CHR '')'') r; r' = dropWhile (\<lambda>x. x \<noteq> CHR '')'') r
             in if u \<noteq> [] \<and> r' \<noteq> [] then
                  (case ws_then_rest (tl r') of Some g \<Rightarrow> g | None \<Rightarrow> nm)
                else nm)
          else nm)"

definition parse_control_header :: "string \<Rightarrow> (string \<times> string) option" where
  "parse_control_header txt =
     (let s = strip txt
      in case s of
           a # b # h # r0 \<Rightarrow>
             if is_upper a \<and> is_upper b \<and> h = CHR ''-'' then
               (let ds = takeWhile is_digit r0; r1 = dropWhile is_digit r0
                in if length ds = 1 \<or> length ds = 2 then
                     (let r2 = (case enh_suffix r1 of Some r \<Rightarrow> r | None \<Rightarrow> r1)
                      in case r2 of
                           [] \<Rightarrow> None
                         | c # r3 \<Rightarrow>
                             if c = CHR '','' then
                               (case ws_then_rest r3 of
                                  None \<Rightarrow> None
                                | Some g \<Rightarrow>
                                    Some (take (length s - length r2) s,
                                          strip_family_name (strip g)))
                             else None)
                   else None)
             else None
         | _ \<Rightarrow> None)"

text \<open>\<open>str.isdigit()\<close> on the code points 0 to 255: the digits and the superscripts 1, 2, 3.\<close>

definition py_isdigit :: "string \<Rightarrow> bool" where
  "py_isdigit s =
     (s \<noteq> [] \<and> list_all (\<lambda>c. is_digit c \<or> (let n = (of_char c :: nat)
                                              in n = 178 \<or> n = 179 \<or> n = 185)) s)"

record ci_control =
  ci_control_id :: string
  ci_name :: string
  ci_selected :: bool
  ci_justification :: "string option"
  ci_parameter_value :: "string option"
  ci_guidance :: "string option"
  ci_references :: "string option"

text \<open>The values of \<open>current_field\<close>, which are keys of the dict of a control.\<close>

datatype field = Justification_Field | Parameter_Value_Field | Guidance_Field | References_Field

definition get_field :: "field \<Rightarrow> ci_control \<Rightarrow> string option" where
  "get_field f c =
     (case f of
        Justification_Field \<Rightarrow> ci_justification c
      | Parameter_Value_Field \<Rightarrow> ci_parameter_value c
      | Guidance_Field \<Rightarrow> ci_guidance c
      | References_Field \<Rightarrow> ci_references c)"

definition set_field :: "field \<Rightarrow> string \<Rightarrow> ci_control \<Rightarrow> ci_control" where
  "set_field f v c =
     (case f of
        Justification_Field \<Rightarrow> c\<lparr>ci_justification := Some v\<rparr>
      | Parameter_Value_Field \<Rightarrow> c\<lparr>ci_parameter_value := Some v\<rparr>
      | Guidance_Field \<Rightarrow> c\<lparr>ci_guidance := Some v\<rparr>
      | References_Field \<Rightarrow> c\<lparr>ci_references := Some v\<rparr>)"

record ci_state =
  ci_controls :: "string \<rightharpoonup> ci_control"
  ci_current_control :: "string option"
  ci_current_field :: "field option"

text \<open>
  What one line does: the extraction stops and returns (at the heading of section 7),
  or goes on with a new state, or a \<open>KeyError\<close> is raised.
\<close>

datatype outcome = Stopped ci_state | Next_Line ci_state | Raised

text \<open>A field header: the field becomes current, and a content that is not empty is stored.\<close>

definition start_field :: "field \<Rightarrow> string \<Rightarrow> ci_state \<Rightarrow> outcome" where
  "start_field f content st =
     (if content \<noteq> [] then
        (case ci_controls st (the (ci_current_control st)) of
           None \<Rightarrow> Raised
         | Some c \<Rightarrow>
             Next_Line (st\<lparr>ci_current_field := Some f,
                           ci_controls := (ci_controls st)(the (ci_current_control st) \<mapsto>
                                             set_field f content c)\<rparr>))
      else Next_Line (st\<lparr>ci_current_field := Some f\<rparr>))"

text \<open>The body of the loop over the lines of a page in \<open>extract_controls_from_pdf\<close>.\<close>

definition ci_line_step :: "ci_state \<Rightarrow> string \<Rightarrow> outcome" where
  "ci_line_step st raw =
     (let line = strip raw
      in if contains ''7.'' line \<and> contains ''Implementation Considerations'' line then Stopped st
         else if line = [] \<or> line = ''Classified System Overlay'' \<or> py_isdigit line
           then Next_Line st
         else if contains ''Attachment 5 to Appendix E'' line then Next_Line st
         else if line = ''09/30/2022'' then Next_Line st
         else
           (case parse_control_header line of
              Some (cid, control_name) \<Rightarrow>
                Next_Line
                  (st\<lparr>ci_current_control := Some cid, ci_current_field := None,
                      ci_controls := (ci_controls st)(cid \<mapsto>
                        \<lparr>ci_control_id = cid, ci_name = control_name, ci_selected = True,
                         ci_justification = None, ci_parameter_value = None,
                         ci_guidance = None, ci_references = None\<rparr>)\<rparr>)
            | None \<Rightarrow>
                if truthy_str (ci_current_control st) then
                  (if prefix ''Justification to Select:'' line then
                     start_field Justification_Field
                       (strip (drop (length ''Justification to Select:'') line)) st
                   else if prefix ''Parameter Value:'' line then
                     start_field Parameter_Value_Field
                       (strip (drop (length ''Parameter Value:'') line)) st
                   else if prefix ''Guidance:'' line then
                     start_field Guidance_Field (strip (drop (length ''Guidance:'') line)) st
                   else if prefix ''Reference(s):'' line \<or> prefix ''Reference:'' line then
                     start_field References_Field
                       (strip (drop (length (takeWhile (\<lambda>c. c \<noteq> CHR '':'') line) + 1) line)) st
                   else
                     (case ci_current_field st of
                        None \<Rightarrow> Next_Line st
                      | Some f \<Rightarrow>
                          if line \<noteq> [] then
                            (if parse_control_header line = None then
                               (case ci_controls st (the (ci_current_control st)) of
                                  None \<Rightarrow> Raised
                                | Some c \<Rightarrow>
                                    Next_Line
                                      (st\<lparr>ci_controls :=
                                            (ci_controls st)(the (ci_current_control st) \<mapsto>
                                              set_field f
                                                (case get_field f c of
                                                   None \<Rightarrow> line
                                                 | Some old \<Rightarrow>
                                                     if old \<noteq> [] then old @ '' '' @ line
                                                     else line)
                                                c)\<rparr>))
                             else Next_Line st)
                          else Next_Line st))
                else Next_Line st))"

definition sample_colon_line :: line_data where
  "sample_colon_line =
     \<lparr>line_text = ''the following: role-based access'', formats = [False]\<rparr>"

definition sample_ci_state :: ci_state where
  "sample_ci_state =
     \<lparr>ci_controls =
        Map.empty(''AC-3'' \<mapsto>
          \<lparr>ci_control_id = ''AC-3'', ci_name = ''Access Enforcement'', ci_selected = True,
           ci_justification = None, ci_parameter_value = None,
           ci_guidance = Some ''Systems apply'', ci_references = None\<rparr>),
      ci_current_control = Some ''AC-3'',
      ci_current_field = Some Guidance_Field\<rparr>"

text \<open>The lines of a page in order, up to a stop or an exception.\<close>

fun ci_page_lines :: "ci_state \<Rightarrow> string list \<Rightarrow> outcome" where
  "ci_page_lines st [] = Next_Line st"
| "ci_page_lines st (raw # raws) =
     (case ci_line_step st raw of
        Next_Line st' \<Rightarrow> ci_page_lines st' raws
      | Stopped st' \<Rightarrow> Stopped st'
      | Raised \<Rightarrow> Raised)"

definition outcome_controls :: "outcome \<Rightarrow> (string \<rightharpoonup> ci_control)" where
  "outcome_controls r =
     (case r of Next_Line st \<Rightarrow> ci_controls st | Stopped st \<Rightarrow> ci_controls st
      | Raised \<Rightarrow> Map.empty)"

definition initial_ci_state :: ci_state where
  "initial_ci_state =
     \<lparr>ci_controls = Map.empty, ci_current_control = None, ci_current_field = None\<rparr>"

definition sample_page :: "line_data list" where
  "sample_page =
     [\<lparr>line_text = ''AC-3, ACCESS ENFORCEMENT'', formats = [True]\<rparr>,
      \<lparr>line_text = ''Supplemental Guidance: Systems apply'', formats = [False]\<rparr>,
      sample_colon_line]"

definition plain_page :: "line_data list" where
  "plain_page =
     [\<lparr>line_text = ''AC-3, ACCESS ENFORCEMENT'', formats = [True]\<rparr>,
      \<lparr>line_text = ''Supplemental Guidance: Systems apply'', formats = [False]\<rparr>,
      \<lparr>line_text = ''the following role-based access'', formats = [False]\<rparr>]"

definition sample_ci_page :: "string list" where
  "sample_ci_page =
     [''AC-3, Access Enforcement'', ''Guidance: Systems apply'',
      ''the following: role-based access'']"

section \<open>Properties of the row classifier\<close>

lemma is_withdrawn_iff:
  "is_withdrawn row \<longleftrightarrow> (\<exists>s. Some s \<in> set row \<and> contains ''Withdrawn'' s)"
proof -
  have "contains ''Withdrawn'' s \<Longrightarrow> s \<noteq> []" for s
    by (cases s) auto
  then show ?thesis
    by (auto simp: is_withdrawn_def list_ex_iff truthy_def str_of_def split: option.splits)
qed

lemma parse_control_row_Some:
  assumes "parse_control_row row structure = Some r"
  shows "classify_row (is_withdrawn row) row structure = Some r"
  using assms by (simp add: parse_control_row_def split: if_splits)

lemma classify_row_selected:
  assumes "classify_row wd row structure = Some r"
  shows "selected r =
           (\<not> wd \<and> (family_of (control_id r) = ''PM'' \<or>
              (family_of (control_id r) \<noteq> ''PT'' \<and>
               any_selection (row_selections (ranges structure) row))))"
  using assms
  by (auto simp: classify_row_def Let_def split: option.splits prod.splits if_splits)

text \<open>
  Claim C1. Whenever \<open>parse_control_row\<close> returns a record for a row in which some cell
  contains the substring \<open>Withdrawn\<close>, the record has \<open>selected = False\<close>, whatever the
  marks of the row, its family and the table structure are.
\<close>

theorem withdrawn_row_not_selected:
  assumes "parse_control_row row structure = Some r"
    and "Some s \<in> set row" and "contains ''Withdrawn'' s"
  shows "selected r = False"
proof -
  have "is_withdrawn row" using assms(2,3) is_withdrawn_iff by blast
  with classify_row_selected[OF parse_control_row_Some[OF assms(1)]] show ?thesis by simp
qed

text \<open>
  A row of the family \<open>PM\<close> with two marks and the marker in its thirteenth cell: the
  record is returned, with the marks recorded and \<open>selected = False\<close>.
\<close>

theorem withdrawn_row_not_selected_witness:
  "parse_control_row withdrawn_pm_row sample_structure = Some withdrawn_pm_record
   \<and> Some ''Withdrawn'' \<in> set withdrawn_pm_row
   \<and> selected withdrawn_pm_record = False"
proof -
  have a: "parse_control_row withdrawn_pm_row sample_structure = Some withdrawn_pm_record"
    by code_simp
  have b: "Some ''Withdrawn'' \<in> set withdrawn_pm_row"
    by (simp add: withdrawn_pm_row_def)
  have c: "contains ''Withdrawn'' ''Withdrawn''" by simp
  from withdrawn_row_not_selected[OF a b c] a b show ?thesis by simp
qed

text \<open>
  Claim C2, as stated, fails: a row of the family \<open>PM\<close> whose title cell carries the
  withdrawn marker is returned with \<open>selected = False\<close>, because the withdrawn test
  comes after the family overrides.
\<close>

theorem pm_row_withdrawn_counterexample:
  "parse_control_row title_withdrawn_pm_row sample_structure \<noteq> None
   \<and> family_of (control_id (the (parse_control_row title_withdrawn_pm_row sample_structure))) = ''PM''
   \<and> selected (the (parse_control_row title_withdrawn_pm_row sample_structure)) = False"
  by code_simp

text \<open>
  Claim C2, amended. For every record that \<open>parse_control_row\<close> returns: if the family
  of its identifier is \<open>PM\<close>, it is selected exactly when no cell of the row carries the
  withdrawn marker, whatever the column marks are; if the family is \<open>PT\<close>, it is not
  selected, whatever the column marks are.
\<close>

theorem family_override_selected:
  assumes "parse_control_row row structure = Some r"
  shows "(family_of (control_id r) = ''PM'' \<longrightarrow> selected r = (\<not> is_withdrawn row))
       \<and> (family_of (control_id r) = ''PT'' \<longrightarrow> selected r = False)"
  using classify_row_selected[OF parse_control_row_Some[OF assms]] by auto

text \<open>
  A \<open>PM\<close> row without any mark is selected, a \<open>PT\<close> row with three marks is not.
\<close>

theorem family_override_selected_witness:
  "parse_control_row plain_pm_row sample_structure \<noteq> None
   \<and> family_of (control_id (the (parse_control_row plain_pm_row sample_structure))) = ''PM''
   \<and> \<not> is_withdrawn plain_pm_row
   \<and> selected (the (parse_control_row plain_pm_row sample_structure)) = True
   \<and> parse_control_row marked_pt_row sample_structure \<noteq> None
   \<and> family_of (control_id (the (parse_control_row marked_pt_row sample_structure))) = ''PT''
   \<and> selected (the (parse_control_row marked_pt_row sample_structure)) = False"
proof -
  have "parse_control_row plain_pm_row sample_structure \<noteq> None" by code_simp
  then obtain r where r: "parse_control_row plain_pm_row sample_structure = Some r" by auto
  have f: "family_of (control_id (the (parse_control_row plain_pm_row sample_structure))) = ''PM''"
    by code_simp
  have w: "\<not> is_withdrawn plain_pm_row" by code_simp
  have "parse_control_row marked_pt_row sample_structure \<noteq> None" by code_simp
  then obtain q where q: "parse_control_row marked_pt_row sample_structure = Some q" by auto
  have g: "family_of (control_id (the (parse_control_row marked_pt_row sample_structure))) = ''PT''"
    by code_simp
  from family_override_selected[OF r] f w r have "selected r = True" by simp
  moreover from family_override_selected[OF q] g q have "selected q = False" by simp
  ultimately show ?thesis using r q f g w by simp
qed

text \<open>
  Claim C10. When the structure gives column 0 as the justification column, every
  record that \<open>parse_control_row\<close> returns has no justification, whatever the cell
  holds; and the same for the parameter value column.
\<close>

theorem column_zero_never_read:
  assumes "parse_control_row row structure = Some r"
  shows "(justification_col structure = Some 0 \<longrightarrow> justification r = None)
       \<and> (param_value_col structure = Some 0 \<longrightarrow> parameter_value r = None)"
  using parse_control_row_Some[OF assms]
  by (auto simp: classify_row_def column_text_def Let_def split: option.splits prod.splits)

text \<open>
  Two headers whose first cell names the text column, and a row whose first cell holds
  a text: the structure detected has column 0, and the record has no such field.
\<close>

theorem column_zero_never_read_witness:
  "justification_col (detect_table_structure left_text_header) = Some 0
   \<and> left_text_row ! 0 = Some ''NSS Best Practice''
   \<and> parse_control_row left_text_row (detect_table_structure left_text_header) \<noteq> None
   \<and> justification (the (parse_control_row left_text_row
                            (detect_table_structure left_text_header))) = None
   \<and> param_value_col (detect_table_structure left_param_header) = Some 0
   \<and> parse_control_row left_text_row (detect_table_structure left_param_header) \<noteq> None
   \<and> parameter_value (the (parse_control_row left_text_row
                              (detect_table_structure left_param_header))) = None"
proof -
  have j: "justification_col (detect_table_structure left_text_header) = Some 0"
    by code_simp
  have p: "param_value_col (detect_table_structure left_param_header) = Some 0"
    by code_simp
  have c: "left_text_row ! 0 = Some ''NSS Best Practice''"
    by (simp add: left_text_row_def)
  have "parse_control_row left_text_row (detect_table_structure left_text_header) \<noteq> None"
    by code_simp
  then obtain r where
    r: "parse_control_row left_text_row (detect_table_structure left_text_header) = Some r"
    by auto
  have "parse_control_row left_text_row (detect_table_structure left_param_header) \<noteq> None"
    by code_simp
  then obtain q where
    q: "parse_control_row left_text_row (detect_table_structure left_param_header) = Some q"
    by auto
  from column_zero_never_read[OF r] j have "justification r = None" by simp
  moreover from column_zero_never_read[OF q] p have "parameter_value q = None" by simp
  ultimately show ?thesis using j p c r q by simp
qed

section \<open>Properties of the identifier matcher\<close>

lemma strip_idem_ends:
  assumes "s \<noteq> []" "\<not> is_space (hd s)" "\<not> is_space (last s)"
  shows "strip s = s"
proof -
  have a: "dropWhile is_space s = s" using assms(1,2) by (cases s) auto
  have "rev s \<noteq> []" "\<not> is_space (hd (rev s))" using assms by (auto simp: hd_rev)
  then have "dropWhile is_space (rev s) = rev s" by (cases "rev s") auto
  with a show ?thesis by (simp add: strip_def)
qed

lemma strip_last_not_space:
  assumes "strip s \<noteq> []"
  shows "\<not> is_space (last (strip s))"
proof -
  let ?t = "dropWhile is_space (rev (dropWhile is_space s))"
  have ne: "?t \<noteq> []" using assms by (simp add: strip_def)
  then have "\<not> is_space (hd ?t)" by (rule hd_dropWhile)
  moreover have "last (strip s) = hd ?t" using ne by (simp add: strip_def last_rev)
  ultimately show ?thesis by simp
qed

lemma is_space_newline [simp]: "is_space newline"
  by (simp add: is_space_def newline_def)

lemma upper_not_space: "is_upper c \<Longrightarrow> \<not> is_space c"
  by (auto simp: is_upper_def is_space_def Let_def)

lemma digit_not_space: "is_digit c \<Longrightarrow> \<not> is_space c"
  by (auto simp: is_digit_def is_space_def Let_def)

lemma paren_facts [simp]:
  "\<not> is_digit (CHR ''('')" "\<not> is_digit (CHR '')'')" "\<not> is_space (CHR '')'')"
  "\<not> is_digit (CHR ''-'')" "\<not> is_upper (CHR ''-'')"
  by (simp_all add: is_digit_def is_space_def is_upper_def)

lemma digits1_all:
  assumes "ds \<noteq> []" "list_all is_digit ds" "rest = [] \<or> \<not> is_digit (hd rest)"
  shows "digits1 (ds @ rest) = Some rest"
proof -
  have "takeWhile is_digit (ds @ rest) = ds" "dropWhile is_digit (ds @ rest) = rest"
    using assms by (cases rest; auto simp: list_all_iff takeWhile_append2 dropWhile_append2)+
  with assms(1) show ?thesis by (simp add: digits1_def)
qed

lemma digits1_Some:
  assumes "digits1 s = Some r"
  shows "\<exists>ds. ds \<noteq> [] \<and> list_all is_digit ds \<and> s = ds @ r"
proof -
  from assms have "takeWhile is_digit s \<noteq> []" "r = dropWhile is_digit s"
    by (auto simp: digits1_def split: if_splits)
  moreover have "list_all is_digit (takeWhile is_digit s)"
    by (auto simp: list_all_iff dest: set_takeWhileD)
  ultimately show ?thesis by (metis takeWhile_dropWhile_id)
qed

lemma row_id_match_form:
  assumes "identifier_parts 2 ls ds e"
  shows "row_id_match (identifier_form ls ds e)"
proof -
  from assms obtain a b where ls: "ls = [a, b]" "is_upper a" "is_upper b"
    by (cases ls; cases "tl ls"; auto simp: identifier_parts_def)
  from assms have ds: "ds \<noteq> []" "list_all is_digit ds" by (auto simp: identifier_parts_def)
  show ?thesis
  proof (cases e)
    case None
    have "digits1 (ds @ []) = Some []" by (rule digits1_all[OF ds]) simp
    then show ?thesis using ls None
      by (simp add: identifier_form_def row_id_match_def enh_suffix_def at_end_def)
  next
    case (Some es)
    with assms have es: "es \<noteq> []" "list_all is_digit es" by (auto simp: identifier_parts_def)
    have 1: "digits1 (ds @ (CHR ''('' # es @ '')'')) = Some (CHR ''('' # es @ '')'')"
      by (rule digits1_all[OF ds]) simp
    have 2: "digits1 (es @ '')'') = Some '')''"
      by (rule digits1_all[OF es]) simp
    show ?thesis using ls Some 1 2
      by (simp add: identifier_form_def row_id_match_def enh_suffix_def at_end_def)
  qed
qed

lemma identifier_form_strip:
  assumes "identifier_parts n ls ds e" "n > 0"
  shows "strip (identifier_form ls ds e) = identifier_form ls ds e"
proof (rule strip_idem_ends)
  from assms have ls: "ls \<noteq> []" "list_all is_upper ls" and ds: "ds \<noteq> []" "list_all is_digit ds"
    by (auto simp: identifier_parts_def)
  show "identifier_form ls ds e \<noteq> []" by (simp add: identifier_form_def)
  have "hd (identifier_form ls ds e) = hd ls" using ls by (simp add: identifier_form_def)
  moreover have "is_upper (hd ls)" using ls by (cases ls) auto
  ultimately show "\<not> is_space (hd (identifier_form ls ds e))" by (simp add: upper_not_space)
  show "\<not> is_space (last (identifier_form ls ds e))"
  proof (cases e)
    case None
    then have "last (identifier_form ls ds e) = last ds" using ds by (simp add: identifier_form_def)
    moreover have "is_digit (last ds)" using ds by (auto simp: list_all_iff)
    ultimately show ?thesis by (simp add: digit_not_space)
  next
    case (Some es)
    then show ?thesis by (simp add: identifier_form_def)
  qed
qed

lemma row_id_match_parts:
  assumes "row_id_match s" "s = [] \<or> \<not> is_space (last s)"
  shows "\<exists>ls ds e. identifier_parts 2 ls ds e \<and> s = identifier_form ls ds e"
proof -
  from assms(1) obtain a b r where s: "s = a # b # CHR ''-'' # r" and ab: "is_upper a" "is_upper b"
    by (auto simp: row_id_match_def split: list.splits)
  from assms(1) s obtain r1 where r1: "digits1 r = Some r1"
    by (auto simp: row_id_match_def split: option.splits)
  then obtain ds where ds: "ds \<noteq> []" "list_all is_digit ds" "r = ds @ r1" using digits1_Some by blast
  have nonl: "s \<noteq> p @ [newline]" for p
  proof
    assume "s = p @ [newline]"
    then have "s \<noteq> []" "last s = newline" by simp_all
    with assms(2) show False by simp
  qed
  from assms(1) s r1 have "at_end r1 \<or> (\<exists>r2. enh_suffix r1 = Some r2 \<and> at_end r2)"
    by (auto simp: row_id_match_def split: option.splits)
  then show ?thesis
  proof
    assume "at_end r1"
    then have "r1 = []" using nonl[of "a # b # CHR ''-'' # ds"] s ds(3) by (auto simp: at_end_def)
    then have "s = identifier_form [a, b] ds None" using s ds by (simp add: identifier_form_def)
    moreover have "identifier_parts 2 [a, b] ds None" using ab ds by (simp add: identifier_parts_def)
    ultimately show ?thesis by blast
  next
    assume "\<exists>r2. enh_suffix r1 = Some r2 \<and> at_end r2"
    then obtain r2 where r2: "enh_suffix r1 = Some r2" "at_end r2" by blast
    then obtain r' where r': "r1 = CHR ''('' # r'" "digits1 r' = Some (CHR '')'' # r2)"
      by (auto simp: enh_suffix_def split: list.splits if_splits option.splits)
    then obtain es where es: "es \<noteq> []" "list_all is_digit es" "r' = es @ CHR '')'' # r2"
      using digits1_Some by blast
    have "r2 = []" using nonl[of "a # b # CHR ''-'' # ds @ CHR ''('' # es @ '')''"] s ds(3) r' es r2(2)
      by (auto simp: at_end_def)
    then have "s = identifier_form [a, b] ds (Some es)" using s ds r' es by (simp add: identifier_form_def)
    moreover have "identifier_parts 2 [a, b] ds (Some es)" using ab ds es by (simp add: identifier_parts_def)
    ultimately show ?thesis by blast
  qed
qed

text \<open>
  Claim C4, as stated, fails: \<open>ABC-1\<close> is an identifier of the grammar with three
  letters, and the matcher of \<open>parse_control_row\<close> does not match it.
\<close>

theorem three_letter_identifier_counterexample:
  "identifier_parts 3 ''ABC'' ''1'' None
   \<and> identifier_form ''ABC'' ''1'' None = ''ABC-1''
   \<and> cell_control_id (Some ''ABC-1'') = None"
  by code_simp

text \<open>
  Claim C4, amended. For every string of the grammar with exactly two letters, the
  matcher of \<open>parse_control_row\<close> applied to a cell that holds the string returns the
  string itself. Whatever the matcher returns for a cell is the stripped text of that
  cell, and this text is a string of the grammar with exactly two letters; so a cell whose
  stripped text is not such a string (three letters, no hyphen, no digit, an open
  parenthesis, text before or after the identifier) gives no match.
\<close>

theorem cell_control_id_round_trip:
  "(identifier_parts 2 ls ds e \<longrightarrow>
      cell_control_id (Some (identifier_form ls ds e)) = Some (identifier_form ls ds e))
   \<and> (cell_control_id c = Some x \<longrightarrow>
        x = strip (str_of c)
        \<and> (\<exists>ls' ds' e'. identifier_parts 2 ls' ds' e'
                         \<and> strip (str_of c) = identifier_form ls' ds' e'))
   \<and> ((\<forall>ls' ds' e'. identifier_parts 2 ls' ds' e'
                       \<longrightarrow> strip (str_of c) \<noteq> identifier_form ls' ds' e')
        \<longrightarrow> cell_control_id c = None)"
proof -
  have conv: "x = strip (str_of c)
        \<and> (\<exists>ls' ds' e'. identifier_parts 2 ls' ds' e'
                         \<and> strip (str_of c) = identifier_form ls' ds' e')"
    if "cell_control_id c = Some x" for x
  proof -
    from that have x: "x = strip (str_of c)" "row_id_match x"
      by (auto simp: cell_control_id_def Let_def split: if_splits)
    have ne: "x = [] \<or> \<not> is_space (last x)" using strip_last_not_space x(1) by blast
    from row_id_match_parts[OF x(2) ne] x(1) show ?thesis by auto
  qed
  show ?thesis
  proof (intro conjI impI)
    assume p: "identifier_parts 2 ls ds e"
    have "identifier_form ls ds e \<noteq> []" by (simp add: identifier_form_def)
    then show "cell_control_id (Some (identifier_form ls ds e)) = Some (identifier_form ls ds e)"
      using row_id_match_form[OF p] identifier_form_strip[OF p]
      by (simp add: cell_control_id_def truthy_def str_of_def)
  next
    assume "cell_control_id c = Some x"
    then show "x = strip (str_of c)" using conv by blast
  next
    assume "cell_control_id c = Some x"
    then show "\<exists>ls' ds' e'. identifier_parts 2 ls' ds' e'
                         \<and> strip (str_of c) = identifier_form ls' ds' e'"
      using conv by blast
  next
    assume n: "\<forall>ls' ds' e'. identifier_parts 2 ls' ds' e'
                       \<longrightarrow> strip (str_of c) \<noteq> identifier_form ls' ds' e'"
    show "cell_control_id c = None"
    proof (cases "cell_control_id c")
      case None
      then show ?thesis .
    next
      case (Some y)
      with conv[OF Some] n show ?thesis by blast
    qed
  qed
qed

text \<open>
  The identifier \<open>AC-12(3)\<close> comes back as it is; the cell \<open>SC-7\<close> between two spaces
  gives its stripped text; \<open>AC1\<close>, \<open>AC-1(2\<close> and \<open>see AC-1\<close> give nothing.
\<close>

theorem cell_control_id_round_trip_witness:
  "identifier_parts 2 ''AC'' ''12'' (Some ''3'')
   \<and> cell_control_id (Some ''AC-12(3)'') = Some ''AC-12(3)''
   \<and> cell_control_id (Some '' SC-7 '') = Some ''SC-7''
   \<and> ''SC-7'' = strip (str_of (Some '' SC-7 ''))
   \<and> (\<exists>ls ds e. identifier_parts 2 ls ds e
                  \<and> strip (str_of (Some '' SC-7 '')) = identifier_form ls ds e)
   \<and> cell_control_id (Some ''AC1'') = None
   \<and> cell_control_id (Some ''AC-1(2'') = None
   \<and> cell_control_id (Some ''see AC-1'') = None"
proof -
  have p: "identifier_parts 2 ''AC'' ''12'' (Some ''3'')" by code_simp
  have f: "identifier_form ''AC'' ''12'' (Some ''3'') = ''AC-12(3)''" by code_simp
  have c: "cell_control_id (Some '' SC-7 '') = Some ''SC-7''" by code_simp
  have n: "cell_control_id (Some ''AC1'') = None" "cell_control_id (Some ''AC-1(2'') = None"
    "cell_control_id (Some ''see AC-1'') = None"
    by code_simp+
  note t = cell_control_id_round_trip[of "''AC''" "''12''" "Some ''3''" "Some '' SC-7 ''" "''SC-7''"]
  from t p f have 1: "cell_control_id (Some ''AC-12(3)'') = Some ''AC-12(3)''" by simp
  from t c have 2: "''SC-7'' = strip (str_of (Some '' SC-7 ''))"
    and 3: "\<exists>ls ds e. identifier_parts 2 ls ds e
                  \<and> strip (str_of (Some '' SC-7 '')) = identifier_form ls ds e"
    by blast+
  from p 1 c 2 3 n show ?thesis by (intro conjI) assumption+
qed

section \<open>Properties of the table structure detector\<close>

lemma map_filter_fst_sorted:
  assumes "sorted_wrt (<) (map fst xs)" "\<And>x y. f x = Some y \<Longrightarrow> fst y = fst x"
  shows "sorted_wrt (<) (map fst (List.map_filter f xs))"
  using assms
proof (induction xs)
  case Nil
  then show ?case by simp
next
  case (Cons x xs)
  have sub: "set (map fst (List.map_filter f xs)) \<subseteq> set (map fst xs)"
    using Cons.prems(2) by (force simp: List.map_filter_def)
  have lt: "fst x < fst z" if "z \<in> set (List.map_filter f xs)" for z
  proof -
    from that sub have "fst z \<in> fst ` set xs" by auto
    then obtain w where "w \<in> set xs" "fst w = fst z" by auto
    with Cons.prems(1) show ?thesis by auto
  qed
  have ih: "sorted_wrt (<) (map fst (List.map_filter f xs))"
    using Cons by simp
  show ?case
  proof (cases "f x")
    case None
    then show ?thesis using ih by simp
  next
    case (Some y)
    then have "fst y = fst x" using Cons.prems(2) by blast
    then show ?thesis using ih Some lt by simp
  qed
qed

lemma lmh_positions_increasing: "sorted_wrt (<) (map fst (lmh_positions row))"
  unfolding lmh_positions_def
  by (rule map_filter_fst_sorted) (auto simp: enumerate_eq_zip)

lemma nine_tokens:
  assumes "map snd ps = [L, M, H, L, M, H, L, M, H]"
  shows "\<exists>c0 c1 c2 c3 c4 c5 c6 c7 c8.
           ps = [(c0, L), (c1, M), (c2, H), (c3, L), (c4, M), (c5, H), (c6, L), (c7, M), (c8, H)]"
  using assms by (auto simp: map_eq_Cons_conv)

lemma group_levels_nine:
  assumes "ps = [(c0, L), (c1, M), (c2, H), (c3, L), (c4, M), (c5, H), (c6, L), (c7, M), (c8, H)]"
    and "c0 < c1" "c1 < c2" "c2 < c3" "c3 < c4" "c4 < c5" "c5 < c6" "c6 < c7" "c7 < c8"
  shows "group_levels ps ps 0 0 [] =
           [((C, L), (c0, c1 - 1)), ((C, M), (c1, c2 - 1)), ((C, H), (c2, c3 - 1)),
            ((I, L), (c3, c4 - 1)), ((I, M), (c4, c5 - 1)), ((I, H), (c5, c6 - 1)),
            ((A, L), (c6, c7 - 1)), ((A, M), (c7, c8 - 1)), ((A, H), (c8, c8 + 2))]"
proof -
  have e: "end_col ps c0 = c1 - 1" "end_col ps c1 = c2 - 1" "end_col ps c2 = c3 - 1"
    "end_col ps c3 = c4 - 1" "end_col ps c4 = c5 - 1" "end_col ps c5 = c6 - 1"
    "end_col ps c6 = c7 - 1" "end_col ps c7 = c8 - 1" "end_col ps c8 = c8 + 2"
    using assms by (simp_all add: end_col_def)
  show ?thesis
    unfolding assms(1)[symmetric]
    apply (subst (2) assms(1))
    apply (simp add: e cia_list_def)
    done
qed


text \<open>
  Claim C5, as stated, fails: a header of three rows with \<open>C\<close>, \<open>I\<close>, \<open>A\<close> in the
  second row and nine level tokens at the columns 3 to 11 of the third row, reading
  \<open>L L L M M M H H H\<close>, gives three ranges and not nine, since each token of a group of
  three writes the same key of the dict.
\<close>

theorem tokens_by_level_counterexample:
  "length by_level_header = 3
   \<and> map (\<lambda>c. strip (str_of c)) (filter truthy (by_level_header ! 1)) = [''C'', ''I'', ''A'']
   \<and> lmh_positions (by_level_header ! 2) =
       [(3, L), (4, L), (5, L), (6, M), (7, M), (8, M), (9, H), (10, H), (11, H)]
   \<and> ranges (detect_table_structure by_level_header) =
       [((C, L), (5, 5)), ((I, M), (8, 8)), ((A, H), (11, 13))]"
  by code_simp

text \<open>
  Claim C5, amended. When the level tokens of the third header row read
  \<open>L M H L M H L M H\<close> from left to right, at the columns \<open>c0 < c1 < ... < c8\<close>,
  \<open>detect_table_structure\<close> gives exactly nine ranges, in the order \<open>C\<close>, \<open>I\<close>, \<open>A\<close>
  and \<open>L\<close>, \<open>M\<close>, \<open>H\<close> within each; each range starts at the column of its token and
  ends one column before the next token, and the last one ends at \<open>c8 + 2\<close>. So each is
  at least one column wide and no two overlap. The first two header rows do not matter.
\<close>

theorem detect_table_structure_nine_ranges:
  assumes "map snd (lmh_positions third_row) = [L, M, H, L, M, H, L, M, H]"
  shows "\<exists>c0 c1 c2 c3 c4 c5 c6 c7 c8.
           map fst (lmh_positions third_row) = [c0, c1, c2, c3, c4, c5, c6, c7, c8]
           \<and> c0 < c1 \<and> c1 < c2 \<and> c2 < c3 \<and> c3 < c4 \<and> c4 < c5 \<and> c5 < c6 \<and> c6 < c7 \<and> c7 < c8
           \<and> ranges (detect_table_structure [top_row, second_row, third_row]) =
               [((C, L), (c0, c1 - 1)), ((C, M), (c1, c2 - 1)), ((C, H), (c2, c3 - 1)),
                ((I, L), (c3, c4 - 1)), ((I, M), (c4, c5 - 1)), ((I, H), (c5, c6 - 1)),
                ((A, L), (c6, c7 - 1)), ((A, M), (c7, c8 - 1)), ((A, H), (c8, c8 + 2))]"
proof -
  from nine_tokens[OF assms] obtain c0 c1 c2 c3 c4 c5 c6 c7 c8 where
    ps: "lmh_positions third_row =
           [(c0, L), (c1, M), (c2, H), (c3, L), (c4, M), (c5, H), (c6, L), (c7, M), (c8, H)]"
    by blast
  have "sorted_wrt (<) (map fst (lmh_positions third_row))"
    by (rule lmh_positions_increasing)
  with ps have lt: "c0 < c1" "c1 < c2" "c2 < c3" "c3 < c4" "c4 < c5" "c5 < c6" "c6 < c7" "c7 < c8"
    by simp_all
  have "ranges (detect_table_structure [top_row, second_row, third_row]) =
          group_levels (lmh_positions third_row) (lmh_positions third_row) 0 0 []"
    by (simp add: detect_table_structure_def Let_def)
  also have "\<dots> =
               [((C, L), (c0, c1 - 1)), ((C, M), (c1, c2 - 1)), ((C, H), (c2, c3 - 1)),
                ((I, L), (c3, c4 - 1)), ((I, M), (c4, c5 - 1)), ((I, H), (c5, c6 - 1)),
                ((A, L), (c6, c7 - 1)), ((A, M), (c7, c8 - 1)), ((A, H), (c8, c8 + 2))]"
    by (rule group_levels_nine[OF ps lt])
  finally show ?thesis using ps lt by auto
qed

theorem detect_table_structure_nine_ranges_witness:
  "map snd (lmh_positions (left_text_header ! 2)) = [L, M, H, L, M, H, L, M, H]
   \<and> map fst (lmh_positions (left_text_header ! 2)) = [3, 4, 5, 6, 7, 8, 9, 10, 11]
   \<and> ranges (detect_table_structure left_text_header) =
       [((C, L), (3, 3)), ((C, M), (4, 4)), ((C, H), (5, 5)),
        ((I, L), (6, 6)), ((I, M), (7, 7)), ((I, H), (8, 8)),
        ((A, L), (9, 9)), ((A, M), (10, 10)), ((A, H), (11, 13))]"
proof -
  have h: "left_text_header = [left_text_header ! 0, left_text_header ! 1, left_text_header ! 2]"
    by (simp add: left_text_header_def)
  have a: "map snd (lmh_positions (left_text_header ! 2)) = [L, M, H, L, M, H, L, M, H]"
    by code_simp
  have b: "map fst (lmh_positions (left_text_header ! 2)) = [3, 4, 5, 6, 7, 8, 9, 10, 11]"
    by code_simp
  from detect_table_structure_nine_ranges[OF a, of "left_text_header ! 0" "left_text_header ! 1"] b
  have "ranges (detect_table_structure
                  [left_text_header ! 0, left_text_header ! 1, left_text_header ! 2]) =
       [((C, L), (3, 3)), ((C, M), (4, 4)), ((C, H), (5, 5)),
        ((I, L), (6, 6)), ((I, M), (7, 7)), ((I, H), (8, 8)),
        ((A, L), (9, 9)), ((A, M), (10, 10)), ((A, H), (11, 13))]"
    by auto
  with h a b show ?thesis by simp
qed

section \<open>Properties of the catalog sorter\<close>

lemma takeWhile_upper_letters:
  assumes "list_all is_upper ls"
  shows "takeWhile is_upper (ls @ CHR ''-'' # r) = ls"
  using assms by (simp add: list_all_iff takeWhile_append2)

lemma takeWhile_digits_rest:
  assumes "list_all is_digit ds" "rest = [] \<or> \<not> is_digit (hd rest)"
  shows "takeWhile is_digit (ds @ rest) = ds"
  using assms by (cases rest) (auto simp: list_all_iff takeWhile_append2)

lemma parse_control_id_form:
  assumes "identifier_parts n ls ds e" "n = 2 \<or> n = 3"
  shows "parse_control_id (identifier_form ls ds e) = Some (identifier_key ls ds e)"
proof -
  from assms have ls: "list_all is_upper ls" "length ls = n" "take 3 ls = ls" "\<not> length ls < 2"
    and ds: "ds \<noteq> []" "list_all is_digit ds"
    by (auto simp: identifier_parts_def)
  have fam: "take 3 (takeWhile is_upper (identifier_form ls ds e)) = ls"
    using takeWhile_upper_letters[OF ls(1)] ls(3) by (simp add: identifier_form_def)
  show ?thesis
  proof (cases e)
    case None
    have d: "digits1 (ds @ []) = Some []" by (rule digits1_all[OF ds]) simp
    have "takeWhile is_digit (ds @ []) = ds" by (rule takeWhile_digits_rest[OF ds(2)]) simp
    then have t: "int_of_digits (takeWhile is_digit ds) = int_of_digits ds" by (simp only: append_Nil2)
    have "identifier_form ls ds e = ls @ CHR ''-'' # ds" using None by (simp add: identifier_form_def)
    then show ?thesis using fam ls(4) d t None
      by (simp add: parse_control_id_def Let_def enh_suffix_def at_end_def identifier_key_def)
  next
    case (Some es)
    with assms have es: "es \<noteq> []" "list_all is_digit es" by (auto simp: identifier_parts_def)
    have f: "identifier_form ls ds (Some es) = ls @ CHR ''-'' # ds @ CHR ''('' # es @ '')''"
      by (simp add: identifier_form_def)
    have fam': "take 3 (takeWhile is_upper (ls @ CHR ''-'' # ds @ CHR ''('' # es @ '')'')) = ls"
      using fam Some f by simp
    have 1: "digits1 (ds @ (CHR ''('' # es @ '')'')) = Some (CHR ''('' # es @ '')'')"
      by (rule digits1_all[OF ds]) simp
    have 2: "digits1 (es @ '')'') = Some '')''"
      by (rule digits1_all[OF es]) simp
    have 3: "takeWhile is_digit (ds @ (CHR ''('' # es @ '')'')) = ds"
      by (rule takeWhile_digits_rest[OF ds(2)]) simp
    have 4: "takeWhile is_digit (es @ '')'') = es"
      by (rule takeWhile_digits_rest[OF es(2)]) simp
    show ?thesis using ls(4) Some
      by (simp add: f fam' parse_control_id_def Let_def enh_suffix_def at_end_def identifier_key_def 1 2 3 4)
  qed
qed

lemma valid_control_key:
  assumes "valid_control c"
  shows "\<exists>cid k. ctl_id c = Some cid \<and> parse_control_id cid = Some k \<and> control_sort_key c = k"
proof -
  from assms obtain n ls ds e where
    p: "n = 2 \<or> n = 3" "identifier_parts n ls ds e" "ctl_id c = Some (identifier_form ls ds e)"
    by (auto simp: valid_control_def)
  from parse_control_id_form[OF p(2) p(1)] p(3) show ?thesis
    by (auto simp: control_sort_key_def identifier_key_def)
qed

lemma key_le_natural:
  fixes k k' :: "string \<times> nat \<times> nat"
  assumes "k \<le> k'"
  shows "natural_le k k'"
  using assms
  by (cases k; cases k') (auto simp: natural_le_def less_eq_prod_def)

lemma sort_controls_sorted_keys:
  "sorted_wrt natural_le (map control_sort_key (sort_controls cs))"
proof -
  have "sorted (map control_sort_key (sort_controls cs))"
    by (simp add: sort_controls_def)
  then show ?thesis
    by (rule sorted_wrt_mono_rel[rotated]) (simp add: key_le_natural)
qed

lemma valid_controlI:
  assumes "identifier_parts n ls ds e" "n = 2 \<or> n = 3" "ctl_id c = Some (identifier_form ls ds e)"
  shows "valid_control c"
  using assms unfolding valid_control_def by blast

text \<open>
  Claim C8. For every list of controls whose identifiers are of the grammar (with two or
  three letters), \<open>sort_controls\<close> returns a permutation of the list in which the
  triples of family, base number and enhancement number that \<open>parse_control_id\<close> reads
  from the identifiers are in the natural order: by family, then by base number as a
  number, then by enhancement number as a number, a base control counting as enhancement
  0. The triple read from an identifier of the grammar is the one the grammar gives it.
  In particular \<open>AC-1, AC-2, AC-10, AC-1(1), AC-1(10)\<close> comes out as
  \<open>AC-1, AC-1(1), AC-1(10), AC-2, AC-10\<close>.
\<close>

theorem sort_controls_natural_order:
  assumes "\<forall>c \<in> set cs. valid_control c"
  shows "mset (sort_controls cs) = mset cs
       \<and> sorted_wrt natural_le
           (map (\<lambda>c. the (parse_control_id (the (ctl_id c)))) (sort_controls cs))
       \<and> (\<forall>n ls ds e. (n = 2 \<or> n = 3) \<and> identifier_parts n ls ds e \<longrightarrow>
             parse_control_id (identifier_form ls ds e) = Some (identifier_key ls ds e))
       \<and> map ctl_id (sort_controls sample_controls)
           = map Some [''AC-1'', ''AC-1(1)'', ''AC-1(10)'', ''AC-2'', ''AC-10'']"
proof (intro conjI)
  show "mset (sort_controls cs) = mset cs" by (simp add: sort_controls_def)
  have "set (sort_controls cs) = set cs" by (simp add: sort_controls_def)
  with assms have "\<forall>c \<in> set (sort_controls cs).
      control_sort_key c = the (parse_control_id (the (ctl_id c)))"
    using valid_control_key by fastforce
  then have "map control_sort_key (sort_controls cs)
           = map (\<lambda>c. the (parse_control_id (the (ctl_id c)))) (sort_controls cs)"
    by simp
  with sort_controls_sorted_keys[of cs]
  show "sorted_wrt natural_le
          (map (\<lambda>c. the (parse_control_id (the (ctl_id c)))) (sort_controls cs))"
    by simp
  show "\<forall>n ls ds e. (n = 2 \<or> n = 3) \<and> identifier_parts n ls ds e \<longrightarrow>
             parse_control_id (identifier_form ls ds e) = Some (identifier_key ls ds e)"
    using parse_control_id_form by blast
  show "map ctl_id (sort_controls sample_controls)
           = map Some [''AC-1'', ''AC-1(1)'', ''AC-1(10)'', ''AC-2'', ''AC-10'']"
    by code_simp
qed

theorem sort_controls_natural_order_witness:
  "list_all valid_control sample_controls
   \<and> mset (sort_controls sample_controls) = mset sample_controls
   \<and> map (\<lambda>c. the (parse_control_id (the (ctl_id c)))) (sort_controls sample_controls)
       = [(''AC'', 1, 0), (''AC'', 1, 1), (''AC'', 1, 10), (''AC'', 2, 0), (''AC'', 10, 0)]
   \<and> sorted_wrt natural_le
       [(''AC'', 1, 0), (''AC'', 1, 1), (''AC'', 1, 10), (''AC'', 2, 0), (''AC'', 10, 0)]"
proof -
  have p: "identifier_parts 2 ''AC'' ''1'' None" "identifier_parts 2 ''AC'' ''2'' None"
    "identifier_parts 2 ''AC'' ''10'' None" "identifier_parts 2 ''AC'' ''1'' (Some ''1'')"
    "identifier_parts 2 ''AC'' ''1'' (Some ''10'')"
    by code_simp+
  have "valid_control \<lparr>ctl_id = Some ''AC-1''\<rparr>"
    by (rule valid_controlI[OF p(1)]) (simp_all add: identifier_form_def)
  moreover have "valid_control \<lparr>ctl_id = Some ''AC-2''\<rparr>"
    by (rule valid_controlI[OF p(2)]) (simp_all add: identifier_form_def)
  moreover have "valid_control \<lparr>ctl_id = Some ''AC-10''\<rparr>"
    by (rule valid_controlI[OF p(3)]) (simp_all add: identifier_form_def)
  moreover have "valid_control \<lparr>ctl_id = Some ''AC-1(1)''\<rparr>"
    by (rule valid_controlI[OF p(4)]) (simp_all add: identifier_form_def)
  moreover have "valid_control \<lparr>ctl_id = Some ''AC-1(10)''\<rparr>"
    by (rule valid_controlI[OF p(5)]) (simp_all add: identifier_form_def)
  ultimately have v: "\<forall>c \<in> set sample_controls. valid_control c"
    by (simp add: sample_controls_def)
  have k: "map (\<lambda>c. the (parse_control_id (the (ctl_id c)))) (sort_controls sample_controls)
       = [(''AC'', 1, 0), (''AC'', 1, 1), (''AC'', 1, 10), (''AC'', 2, 0), (''AC'', 10, 0)]"
    by code_simp
  from sort_controls_natural_order[OF v] k v show ?thesis by (simp add: list_all_iff)
qed

section \<open>Properties of the record stores\<close>

lemma strip_tail_kept:
  assumes "s \<noteq> []" "\<not> is_space (last s)"
  shows "strip s = dropWhile is_space s"
proof -
  have "last s \<in> set s" using assms(1) by simp
  then have ne: "dropWhile is_space s \<noteq> []" using assms(2) by (auto simp: dropWhile_eq_Nil_conv)
  then have "last (dropWhile is_space s) = last s"
    by (metis assms(1) last_appendR takeWhile_dropWhile_id)
  then have "\<not> is_space (hd (rev (dropWhile is_space s)))"
    using ne assms(2) by (simp add: hd_rev)
  then have "dropWhile is_space (rev (dropWhile is_space s)) = rev (dropWhile is_space s)"
    using ne by (cases "rev (dropWhile is_space s)") auto
  then show ?thesis by (simp add: strip_def)
qed

lemma stripped_ends:
  assumes "stripped s" "s \<noteq> []"
  shows "\<not> is_space (hd s)" "\<not> is_space (last s)"
proof -
  show "\<not> is_space (last s)" using strip_last_not_space[of s] assms by (simp add: stripped_def)
  then have "strip s = dropWhile is_space s" using assms(2) by (rule strip_tail_kept[rotated])
  then have "dropWhile is_space s = s" using assms(1) by (simp add: stripped_def)
  then show "\<not> is_space (hd s)" using assms(2) by (metis hd_dropWhile)
qed

lemma strip_join:
  assumes "stripped e" "e \<noteq> []" "stripped t" "t \<noteq> []"
  shows "strip (e @ '' '' @ t) = e @ '' '' @ t"
proof (rule strip_idem_ends)
  show "e @ '' '' @ t \<noteq> []" using assms by simp
  show "\<not> is_space (hd (e @ '' '' @ t))" using stripped_ends(1)[OF assms(1,2)] assms(2) by simp
  show "\<not> is_space (last (e @ '' '' @ t))" using stripped_ends(2)[OF assms(3,4)] assms(4) by simp
qed

lemma stripped_join:
  assumes "stripped e" "e \<noteq> []" "stripped t" "t \<noteq> []"
  shows "stripped (e @ '' '' @ t)"
  using strip_join[OF assms] by (simp add: stripped_def)

lemma merge_text_stripped:
  assumes "stripped e" "stripped t"
  shows "merge_text e t = (if t = [] then e else if e = [] then t else e @ '' '' @ t)"
    and "stripped (merge_text e t)"
  using assms strip_join[of e t] stripped_join[of e t]
  by (auto simp: merge_text_def stripped_def)


lemma merge_text_twice:
  assumes "stripped a" "a \<noteq> []" "stripped b" "b \<noteq> []"
  shows "merge_text (merge_text e a) b = merge_text e (a @ '' '' @ b)"
proof -
  have ab: "strip (a @ '' '' @ b) = a @ '' '' @ b" by (rule strip_join[OF assms])
  have sa: "strip a = a" using assms(1) by (simp add: stripped_def)
  have sb: "strip b = b" using assms(3) by (simp add: stripped_def)
  have la: "\<not> is_space (last a)" and lb: "\<not> is_space (last b)"
    using stripped_ends(2) assms by blast+
  show ?thesis
  proof (cases "e = []")
    case True
    then show ?thesis using assms ab sa sb by (simp add: merge_text_def)
  next
    case False
    let ?x = "e @ '' '' @ a"
    have x1: "strip ?x = dropWhile is_space ?x"
      by (rule strip_tail_kept) (use assms(2) la in simp_all)
    have "last a \<in> set ?x" using assms(2) by simp
    with la have x2: "dropWhile is_space (?x @ '' '' @ b) = dropWhile is_space ?x @ '' '' @ b"
      by (meson dropWhile_append1)
    have ne: "dropWhile is_space ?x \<noteq> []"
      using \<open>last a \<in> set ?x\<close> la by (auto simp: dropWhile_eq_Nil_conv)
    have hd: "\<not> is_space (hd (dropWhile is_space ?x))" using ne by (rule hd_dropWhile)
    have l: "strip (dropWhile is_space ?x @ '' '' @ b) = dropWhile is_space ?x @ '' '' @ b"
      by (rule strip_idem_ends) (use ne hd assms(4) lb in simp_all)
    have r: "strip (?x @ '' '' @ b) = dropWhile is_space ?x @ '' '' @ b"
      using strip_tail_kept[of "?x @ '' '' @ b"] assms(4) lb x2 by simp
    have "merge_text e a = dropWhile is_space ?x"
      using False assms(2) sa x1 by (simp add: merge_text_def)
    moreover have "merge_text e (a @ '' '' @ b) = strip (?x @ '' '' @ b)"
      using False ab assms(2) by (simp add: merge_text_def)
    ultimately show ?thesis using ne assms(4) sb l r by (simp add: merge_text_def)
  qed
qed

lemma upsert_control_new:
  assumes "store (cd_id d) = None"
  shows "upsert_control store d (cd_id d)
           = Some \<lparr>control_text = cd_control_text d, defined_value = cd_defined_value d\<rparr>"
  using assms by (simp add: upsert_control_def)

lemma upsert_control_fragments_any_store:
  assumes "stripped a" "a \<noteq> []" "stripped b" "b \<noteq> []"
  shows "map_option control_text
           (upsert_control
              (upsert_control store \<lparr>cd_id = i, cd_control_text = a, cd_defined_value = v\<rparr>)
              \<lparr>cd_id = i, cd_control_text = b, cd_defined_value = w\<rparr> i)
         = map_option control_text
             (upsert_control store
                \<lparr>cd_id = i, cd_control_text = a @ '' '' @ b, cd_defined_value = u\<rparr> i)"
proof (cases "store i")
  case None
  have "merge_text a b = a @ '' '' @ b"
    using merge_text_stripped(1)[OF assms(1) assms(3)] assms by simp
  then show ?thesis using None by (simp add: upsert_control_def)
next
  case (Some ex)
  then show ?thesis using merge_text_twice[OF assms] by (simp add: upsert_control_def)
qed

text \<open>
  Claim C3, as stated, fails for the store of the table pipeline: two rows of the same
  identifier whose justification cells hold \<open>A\<close> and \<open>B\<close> leave the justification
  \<open>B\<close> and not \<open>A B\<close>, since the later record replaces the earlier one.
\<close>

theorem table_store_replaces_counterexample:
  "map_option justification
     (store_page_controls Map.empty
        (List.map_filter (\<lambda>row. parse_control_row row sample_structure)
           [fragment_row ''A'', fragment_row ''B'']) ''AC-2'') = Some (Some ''B'')
   \<and> map_option justification
       (store_page_controls Map.empty
          (List.map_filter (\<lambda>row. parse_control_row row sample_structure)
             [fragment_row ''A B'']) ''AC-2'') = Some (Some ''A B'')"
  by code_simp

text \<open>
  Claim C3, amended. In the store of the coordinate pipeline
  (\<open>_finalize_current_control\<close>), an upsert under an identifier that is already there
  appends each incoming text field that is not empty to the text of that field after a
  single space, or stores it as it is when the field was empty, and leaves the field when
  the incoming text is empty; the texts are stripped, as the parser returns them and as
  the store keeps them. In particular, for fragments \<open>a\<close> and \<open>b\<close>, upserting
  \<open>a\<close> and then \<open>b\<close> leaves the same text as upserting \<open>a b\<close> at once.
\<close>

theorem upsert_control_appends:
  assumes "store (cd_id d) = Some ex"
    and "stripped (control_text ex)" "stripped (defined_value ex)"
    and "stripped (cd_control_text d)" "stripped (cd_defined_value d)"
  shows "upsert_control store d (cd_id d) =
           Some \<lparr>control_text =
                    (if cd_control_text d = [] then control_text ex
                     else if control_text ex = [] then cd_control_text d
                     else control_text ex @ '' '' @ cd_control_text d),
                  defined_value =
                    (if cd_defined_value d = [] then defined_value ex
                     else if defined_value ex = [] then cd_defined_value d
                     else defined_value ex @ '' '' @ cd_defined_value d)\<rparr>
       \<and> (\<forall>a b v w u. stripped a \<and> a \<noteq> [] \<and> stripped b \<and> b \<noteq> [] \<longrightarrow>
            map_option control_text
              (upsert_control
                 (upsert_control store \<lparr>cd_id = cd_id d, cd_control_text = a, cd_defined_value = v\<rparr>)
                 \<lparr>cd_id = cd_id d, cd_control_text = b, cd_defined_value = w\<rparr> (cd_id d))
            = map_option control_text
                (upsert_control store
                   \<lparr>cd_id = cd_id d, cd_control_text = a @ '' '' @ b, cd_defined_value = u\<rparr> (cd_id d)))"
proof (intro conjI allI impI)
  show "upsert_control store d (cd_id d) =
           Some \<lparr>control_text =
                    (if cd_control_text d = [] then control_text ex
                     else if control_text ex = [] then cd_control_text d
                     else control_text ex @ '' '' @ cd_control_text d),
                  defined_value =
                    (if cd_defined_value d = [] then defined_value ex
                     else if defined_value ex = [] then cd_defined_value d
                     else defined_value ex @ '' '' @ cd_defined_value d)\<rparr>"
    using assms(1) merge_text_stripped(1)[OF assms(2) assms(4)]
      merge_text_stripped(1)[OF assms(3) assms(5)]
    by (simp add: upsert_control_def)
next
  fix a b v w u
  assume "stripped a \<and> a \<noteq> [] \<and> stripped b \<and> b \<noteq> []"
  then have "merge_text (merge_text (control_text ex) a) b
               = merge_text (control_text ex) (a @ '' '' @ b)"
    using merge_text_twice by blast
  then show "map_option control_text
              (upsert_control
                 (upsert_control store \<lparr>cd_id = cd_id d, cd_control_text = a, cd_defined_value = v\<rparr>)
                 \<lparr>cd_id = cd_id d, cd_control_text = b, cd_defined_value = w\<rparr> (cd_id d))
            = map_option control_text
                (upsert_control store
                   \<lparr>cd_id = cd_id d, cd_control_text = a @ '' '' @ b, cd_defined_value = u\<rparr> (cd_id d))"
    using assms(1) by (simp add: upsert_control_def)
qed

theorem upsert_control_appends_witness:
  "sample_store ''AC-2'' = Some \<lparr>control_text = ''Account Management'', defined_value = []\<rparr>
   \<and> upsert_control sample_store
         \<lparr>cd_id = ''AC-2'', cd_control_text = ''A'', cd_defined_value = ''B''\<rparr> ''AC-2''
       = Some \<lparr>control_text = ''Account Management A'', defined_value = ''B''\<rparr>
   \<and> map_option control_text
         (upsert_control
            (upsert_control sample_store
               \<lparr>cd_id = ''AC-2'', cd_control_text = ''A'', cd_defined_value = []\<rparr>)
            \<lparr>cd_id = ''AC-2'', cd_control_text = ''B'', cd_defined_value = []\<rparr> ''AC-2'')
       = map_option control_text
           (upsert_control sample_store
              \<lparr>cd_id = ''AC-2'', cd_control_text = ''A B'', cd_defined_value = []\<rparr> ''AC-2'')
   \<and> map_option control_text
         (upsert_control sample_store
            \<lparr>cd_id = ''AC-2'', cd_control_text = ''A B'', cd_defined_value = []\<rparr> ''AC-2'')
       = Some ''Account Management A B''"
proof -
  let ?d = "\<lparr>cd_id = ''AC-2'', cd_control_text = ''A'', cd_defined_value = ''B''\<rparr>"
  let ?ex = "\<lparr>control_text = ''Account Management'', defined_value = []\<rparr>"
  have s: "sample_store (cd_id ?d) = Some ?ex" by (simp add: sample_store_def)
  have t: "stripped (control_text ?ex)" "stripped (defined_value ?ex)"
    "stripped (cd_control_text ?d)" "stripped (cd_defined_value ?d)"
    by code_simp+
  have ab: "stripped ''A'' \<and> ''A'' \<noteq> [] \<and> stripped ''B'' \<and> ''B'' \<noteq> []" by code_simp
  have r: "map_option control_text
         (upsert_control sample_store
            \<lparr>cd_id = ''AC-2'', cd_control_text = ''A B'', cd_defined_value = []\<rparr> ''AC-2'')
       = Some ''Account Management A B''"
    by code_simp
  note u = upsert_control_appends[of sample_store ?d ?ex, OF s t]
  from u have 1: "upsert_control sample_store ?d ''AC-2''
       = Some \<lparr>control_text = ''Account Management A'', defined_value = ''B''\<rparr>"
    by simp
  from u[THEN conjunct2, rule_format, of "''A''" "''B''" "[]" "[]" "[]"] ab
  have 2: "map_option control_text
         (upsert_control
            (upsert_control sample_store
               \<lparr>cd_id = ''AC-2'', cd_control_text = ''A'', cd_defined_value = []\<rparr>)
            \<lparr>cd_id = ''AC-2'', cd_control_text = ''B'', cd_defined_value = []\<rparr> ''AC-2'')
       = map_option control_text
           (upsert_control sample_store
              \<lparr>cd_id = ''AC-2'', cd_control_text = ''A B'', cd_defined_value = []\<rparr> ''AC-2'')"
    by simp
  have s': "sample_store ''AC-2'' = Some ?ex" by (simp add: sample_store_def)
  from s' 1 2 r show ?thesis by (intro conjI) assumption+
qed

section \<open>Properties of the free-text line pipeline\<close>

lemma lit_ci_nth:
  assumes "lit_ci l s = Some r" "i < length l"
  shows "i < length s \<and> lower_char (s ! i) = lower_char (l ! i)"
proof -
  from assms(1) have le: "length l \<le> length s" and eq: "lower (take (length l) s) = lower l"
    by (auto simp: lit_ci_def split: if_splits)
  have "lower (take (length l) s) ! i = lower_char (s ! i)"
    using le assms(2) by (simp add: lower_def)
  moreover have "lower l ! i = lower_char (l ! i)" using assms(2) by (simp add: lower_def)
  ultimately show ?thesis using le assms(2) eq by simp
qed

lemma lower_char_n [simp]: "lower_char (CHR ''n'') = CHR ''n''"
  by code_simp

lemma lower_char_hyphen [simp]: "lower_char (CHR ''-'') = CHR ''-''"
  by code_simp

lemma enhancement_pattern_third:
  assumes "enhancement_pattern k s = Some g"
  shows "2 < length s \<and> lower_char (s ! 2) = CHR ''n''"
proof -
  from assms obtain l r where "lit_ci l s = Some r" "2 < length l" "l ! 2 = CHR ''n''"
    unfolding enhancement_pattern_def
    by (auto split: if_splits option.splits)
  with lit_ci_nth[of l s r 2] show ?thesis by simp
qed

lemma first_some_Some:
  assumes "first_some f xs = Some y"
  shows "\<exists>x \<in> set xs. f x = Some y"
  using assms by (induction xs) (auto split: option.splits)

lemma enhancement_line_not_base:
  assumes "flexible_enhancement_match s = Some g"
  shows "base_control_match s = None"
proof -
  from assms obtain k where "enhancement_pattern k s = Some g"
    unfolding flexible_enhancement_match_def using first_some_Some by fastforce
  then have t: "2 < length s" "lower_char (s ! 2) = CHR ''n''"
    using enhancement_pattern_third by blast+
  then obtain a b h r0 where s: "s = a # b # h # r0"
    by (cases s; cases "tl s"; cases "tl (tl s)") auto
  with t(2) have "h \<noteq> CHR ''-''" by auto
  with s show ?thesis by (simp add: base_control_match_def)
qed

lemma add_enhancements_base:
  assumes "\<forall>n \<in> set nums. enhancement_id base (strip n) \<noteq> base"
  shows "add_enhancements base p nums cs base = cs base"
  using assms by (induction nums arbitrary: cs) (auto simp: Let_def)

lemma enhancement_id_neq: "enhancement_id base n \<noteq> base"
  by (simp add: enhancement_id_def)

lemma add_enhancements_other:
  assumes "k \<notin> (\<lambda>n. enhancement_id base (strip n)) ` set nums"
  shows "add_enhancements base p nums cs k = cs k"
  using assms by (induction nums arbitrary: cs) (auto simp: Let_def)

lemma add_enhancements_member:
  assumes "n \<in> set nums"
  shows "add_enhancements base p nums cs (enhancement_id base (strip n)) =
           Some \<lparr>name = (case cs base of None \<Rightarrow> [] | Some c \<Rightarrow> name c),
                 attributes = Map.empty, page = p\<rparr>"
  using assms
proof (induction nums arbitrary: cs n)
  case Nil
  then show ?case by simp
next
  case (Cons m nums)
  let ?cs' = "cs(enhancement_id base (strip m) \<mapsto>
               \<lparr>name = (case cs base of None \<Rightarrow> [] | Some c \<Rightarrow> name c),
                attributes = Map.empty, page = p\<rparr>)"
  have b: "?cs' base = cs base" using enhancement_id_neq[of base "strip m"] by auto
  have step: "add_enhancements base p (m # nums) cs k = add_enhancements base p nums ?cs' k" for k
    by (simp add: Let_def del: fun_upd_apply)
  have ih: "add_enhancements base p nums ?cs' (enhancement_id base (strip x)) =
           Some \<lparr>name = (case cs base of None \<Rightarrow> [] | Some c \<Rightarrow> name c),
                 attributes = Map.empty, page = p\<rparr>" if "x \<in> set nums" for x
    using Cons.IH[OF that, of ?cs'] by (simp only: b)
  show ?case
  proof (cases "enhancement_id base (strip n) \<in> (\<lambda>x. enhancement_id base (strip x)) ` set nums")
    case True
    then obtain x where x: "x \<in> set nums"
      "enhancement_id base (strip x) = enhancement_id base (strip n)"
      by auto
    from ih[OF x(1)] x(2) show ?thesis by (simp only: step)
  next
    case False
    then have "n \<notin> set nums" by auto
    with Cons.prems have nm: "n = m" by simp
    have "add_enhancements base p nums ?cs' (enhancement_id base (strip n))
            = ?cs' (enhancement_id base (strip n))"
      by (rule add_enhancements_other[OF False])
    also have "\<dots> = Some \<lparr>name = (case cs base of None \<Rightarrow> [] | Some c \<Rightarrow> name c),
                 attributes = Map.empty, page = p\<rparr>"
      using nm by simp
    finally show ?thesis by (simp only: step)
  qed
qed

lemma enhancement_match_step:
  assumes "flexible_enhancement_match (line_text l) = Some g"
    and "current_base_control st = Some base" and "base \<noteq> []"
  shows "\<exists>st'. line_step page_num st l = Some st'
           \<and> (\<forall>n \<in> set (split_on (CHR '','') g).
                 overlay_controls st' (enhancement_id base (strip n)) =
                   Some \<lparr>name = (case overlay_controls st base of None \<Rightarrow> [] | Some c \<Rightarrow> name c),
                         attributes = Map.empty, page = page_num\<rparr>)
           \<and> current_control st' = Some (enhancement_id base (strip (last (split_on (CHR '','') g))))
           \<and> current_base_control st' = Some base
           \<and> current_attribute st' = None"
proof -
  have nb: "base_control_match (line_text l) = None"
    by (rule enhancement_line_not_base[OF assms(1)])
  let ?st' = "st\<lparr>overlay_controls :=
                    add_enhancements base page_num (split_on (CHR '','') g) (overlay_controls st),
                  current_control := Some (enhancement_id base (strip (last (split_on (CHR '','') g)))),
                  current_attribute := None\<rparr>"
  have "line_step page_num st l = Some ?st'"
    using assms nb by (simp add: line_step_def Let_def)
  moreover have "\<forall>n \<in> set (split_on (CHR '','') g).
                 overlay_controls ?st' (enhancement_id base (strip n)) =
                   Some \<lparr>name = (case overlay_controls st base of None \<Rightarrow> [] | Some c \<Rightarrow> name c),
                         attributes = Map.empty, page = page_num\<rparr>"
    using add_enhancements_member by simp
  ultimately show ?thesis using assms(2) by simp
qed


lemma comma_facts [simp]:
  "\<not> is_digit (CHR '','')" "\<not> is_space (CHR '','')" "\<not> is_digit (CHR '' '')" "is_space (CHR '' '')"
  by (simp_all add: is_digit_def is_space_def)

lemma is_number_ends:
  "is_number n \<Longrightarrow> is_digit (hd n) \<and> \<not> is_space (hd n) \<and> \<not> is_space (last n)"
  by (cases n) (auto simp: is_number_def list_all_iff digit_not_space)

text \<open>The text after the first number: each further number behind a comma and a space.\<close>

lemma join_numbers_Cons:
  "join_numbers (n # ns) = n @ concat (map (\<lambda>m. '', '' @ m) ns)"
  by (induction ns arbitrary: n) auto

lemma joined_tail_start:
  "concat (map (\<lambda>m. '', '' @ m) ns) = [] \<or> \<not> is_digit (hd (concat (map (\<lambda>m. '', '' @ m) ns)))"
  by (cases ns) auto

lemma number_tail_joined:
  assumes "\<forall>m \<in> set ns. is_number m"
  shows "number_tail (concat (map (\<lambda>m. '', '' @ m) ns)) = []"
  using assms
proof (induction ns)
  case Nil
  show ?case by (subst number_tail.simps) simp
next
  case (Cons m ns)
  define R where "R = concat (map (\<lambda>m. '', '' @ m) ns)"
  have m: "m \<noteq> []" "list_all is_digit m" "\<not> is_space (hd m)"
    using Cons.prems is_number_ends[of m] by (auto simp: is_number_def)
  have R: "R = [] \<or> \<not> is_digit (hd R)" unfolding R_def by (rule joined_tail_start)
  have d: "digits1 (m @ R) = Some R" by (rule digits1_all[OF m(1,2) R])
  have w: "dropWhile is_space (m @ R) = m @ R"
    using m(1,3) by (cases m) auto
  have ih: "number_tail R = []" unfolding R_def by (rule Cons.IH) (use Cons.prems in simp)
  have "number_tail (CHR '','' # CHR '' '' # m @ R) = number_tail R"
    by (subst number_tail.simps[of "CHR '','' # CHR '' '' # m @ R"]) (simp add: w d)
  moreover have "concat (map (\<lambda>m. '', '' @ m) (m # ns)) = CHR '','' # CHR '' '' # m @ R"
    by (simp add: R_def)
  ultimately show ?case using ih by simp
qed

lemma number_list_joined:
  assumes "\<forall>m \<in> set (n # ns). is_number m"
  shows "number_list (join_numbers (n # ns)) = Some (join_numbers (n # ns), [])"
proof -
  define R where "R = concat (map (\<lambda>m. '', '' @ m) ns)"
  have j: "join_numbers (n # ns) = n @ R" unfolding R_def by (rule join_numbers_Cons)
  have n: "n \<noteq> []" "list_all is_digit n" using assms by (auto simp: is_number_def)
  have R: "R = [] \<or> \<not> is_digit (hd R)" unfolding R_def by (rule joined_tail_start)
  have d: "digits1 (n @ R) = Some R" by (rule digits1_all[OF n R])
  have t: "number_tail R = []" unfolding R_def using assms by (intro number_tail_joined) simp
  show ?thesis unfolding j by (simp add: number_list_def d t)
qed

lemma enhancement_line_matches:
  assumes "nums \<noteq> []" "\<forall>m \<in> set nums. is_number m"
  shows "flexible_enhancement_match (''Control Enhancement: '' @ join_numbers nums)
           = Some (join_numbers nums)"
proof -
  from assms obtain n ns where nums: "nums = n # ns" by (cases nums) auto
  define J where "J = join_numbers nums"
  have hd: "\<not> is_space (hd J)" "J \<noteq> []"
    using assms is_number_ends[of n] nums by (auto simp: J_def join_numbers_Cons is_number_def)
  then have w: "ws_star (CHR '' '' # J) = J"
    by (cases J) (auto simp: ws_star_def)
  have nl: "number_list J = Some (J, [])"
    unfolding J_def nums using number_list_joined[of n ns] assms(2) nums by simp
  have l: "lit_ci ''Control Enhancement:'' (''Control Enhancement: '' @ J) = Some (CHR '' '' # J)"
    by (simp add: lit_ci_def)
  have "numbers_to_end At_End (CHR '' '' # J) = Some J"
    by (simp add: numbers_to_end_def w nl end_ok_def at_end_def)
  then have "enhancement_pattern 1 (''Control Enhancement: '' @ J) = Some J"
    unfolding enhancement_pattern_def by (simp only: l) simp
  then show ?thesis unfolding J_def by (simp add: flexible_enhancement_match_def)
qed

lemma split_on_no_sep:
  assumes "sep \<notin> set s"
  shows "split_on sep (s @ sep # r) = s # split_on sep r" "split_on sep s = [s]"
  using assms by (induction s) (auto split: list.splits)

lemma strip_number: "is_number n \<Longrightarrow> strip n = n"
  using is_number_ends[of n] by (auto simp: is_number_def intro!: strip_idem_ends)

lemma number_no_comma: "is_number n \<Longrightarrow> CHR '','' \<notin> set n"
  by (auto simp: is_number_def list_all_iff)

lemma strip_leading_space: "strip (CHR '' '' # x) = strip x"
  by (simp add: strip_def)

lemma split_joined:
  assumes "\<forall>m \<in> set (n # ns). is_number m"
  shows "map strip (split_on (CHR '','') (join_numbers (n # ns))) = n # ns"
  using assms
proof (induction ns arbitrary: n)
  case Nil
  then show ?case by (simp add: split_on_no_sep strip_number number_no_comma)
next
  case (Cons m ns)
  define J where "J = join_numbers (m # ns)"
  have n: "CHR '','' \<notin> set n" "strip n = n"
    using Cons.prems by (simp_all add: strip_number number_no_comma)
  have ih: "map strip (split_on (CHR '','') J) = m # ns"
    unfolding J_def using Cons by simp
  then obtain x xs where sp: "split_on (CHR '','') J = x # xs"
    by (cases "split_on (CHR '','') J") auto
  have "split_on (CHR '','') (CHR '' '' # J) = (CHR '' '' # x) # xs"
    using sp by simp
  then have t: "map strip (split_on (CHR '','') (CHR '' '' # J)) = m # ns"
    using ih sp by (simp add: strip_leading_space)
  have "join_numbers (n # m # ns) = n @ CHR '','' # (CHR '' '' # J)"
    by (simp add: J_def)
  then show ?case
    using split_on_no_sep(1)[OF n(1), of "CHR '' '' # J"] t n(2) by simp
qed

text \<open>
  An enhancement that is listed again is not reused. On page 6 the enhancement AC-3(4) is
  created and receives an attribute; when a line of page 7 lists the number 4 again, the
  record under AC-3(4) has no attribute any more and carries page 7.
\<close>

theorem enhancement_record_replaced_counterexample:
  "current_base_control (process_page_lines 6 initial_state enhancement_page) = Some ''AC-3''
   \<and> flexible_enhancement_match (line_text repeated_enhancement_line) = Some ''4, 5''
   \<and> map_option (\<lambda>c. (attributes c ''Supplemental Guidance'', page c))
        (overlay_controls (process_page_lines 6 initial_state enhancement_page) ''AC-3(4)'')
        = Some (Some ''Applies to privileged accounts'', 6)
   \<and> map_option (\<lambda>c. (attributes c ''Supplemental Guidance'', page c))
        (overlay_controls
           (process_page_lines 7 (process_page_lines 6 initial_state enhancement_page)
              [repeated_enhancement_line]) ''AC-3(4)'')
        = Some (None, 7)"
  by code_simp

text \<open>
  Claim C7, amended. Let a base control be current. When a line matches one of the
  enhancement patterns, its group being the list of numbers, the step for the line
  stores, for each number of the list, a new record under \<open>base(n)\<close>, in the place of
  any record already stored there: it carries the title of the base control, no attribute
  and the page. The current control becomes the enhancement of the last number, the base
  control stays, and the current attribute is reset. The line
  \<open>Control Enhancement: n[, n...]\<close> is such a line for every list of numbers, and its
  numbers are the ones listed; it never counts as a base control line, bold or not.
\<close>

theorem enhancement_line_step:
  assumes "current_base_control st = Some base" and "base \<noteq> []"
  shows "(\<forall>g. flexible_enhancement_match (line_text l) = Some g \<longrightarrow>
           (\<exists>st'. line_step page_num st l = Some st'
              \<and> (\<forall>n \<in> set (split_on (CHR '','') g).
                    overlay_controls st' (enhancement_id base (strip n)) =
                      Some \<lparr>name = (case overlay_controls st base of
                                       None \<Rightarrow> [] | Some c \<Rightarrow> name c),
                            attributes = Map.empty, page = page_num\<rparr>)
              \<and> current_control st'
                  = Some (enhancement_id base (strip (last (split_on (CHR '','') g))))
              \<and> current_base_control st' = Some base
              \<and> current_attribute st' = None))
       \<and> (\<forall>nums. nums \<noteq> [] \<and> (\<forall>m \<in> set nums. is_number m)
                  \<and> line_text l = ''Control Enhancement: '' @ join_numbers nums \<longrightarrow>
           (\<exists>st'. line_step page_num st l = Some st'
              \<and> (\<forall>n \<in> set nums.
                    overlay_controls st' (enhancement_id base n) =
                      Some \<lparr>name = (case overlay_controls st base of
                                       None \<Rightarrow> [] | Some c \<Rightarrow> name c),
                            attributes = Map.empty, page = page_num\<rparr>)
              \<and> current_control st' = Some (enhancement_id base (last nums))
              \<and> current_base_control st' = Some base
              \<and> current_attribute st' = None))"
proof (intro conjI allI impI)
  fix g
  assume "flexible_enhancement_match (line_text l) = Some g"
  then show "\<exists>st'. line_step page_num st l = Some st'
              \<and> (\<forall>n \<in> set (split_on (CHR '','') g).
                    overlay_controls st' (enhancement_id base (strip n)) =
                      Some \<lparr>name = (case overlay_controls st base of
                                       None \<Rightarrow> [] | Some c \<Rightarrow> name c),
                            attributes = Map.empty, page = page_num\<rparr>)
              \<and> current_control st'
                  = Some (enhancement_id base (strip (last (split_on (CHR '','') g))))
              \<and> current_base_control st' = Some base
              \<and> current_attribute st' = None"
    using assms by (rule enhancement_match_step)
next
  fix nums
  assume a: "nums \<noteq> [] \<and> (\<forall>m \<in> set nums. is_number m)
               \<and> line_text l = ''Control Enhancement: '' @ join_numbers nums"
  then obtain n ns where nums: "nums = n # ns" by (cases nums) auto
  from a have m: "flexible_enhancement_match (line_text l) = Some (join_numbers nums)"
    using enhancement_line_matches by simp
  from a nums have sp: "map strip (split_on (CHR '','') (join_numbers nums)) = nums"
    using split_joined[of n ns] by simp
  from enhancement_match_step[OF m assms, of page_num] obtain st' where
    st': "line_step page_num st l = Some st'"
      "\<forall>x \<in> set (split_on (CHR '','') (join_numbers nums)).
         overlay_controls st' (enhancement_id base (strip x)) =
           Some \<lparr>name = (case overlay_controls st base of None \<Rightarrow> [] | Some c \<Rightarrow> name c),
                 attributes = Map.empty, page = page_num\<rparr>"
      "current_control st'
         = Some (enhancement_id base (strip (last (split_on (CHR '','') (join_numbers nums)))))"
      "current_base_control st' = Some base" "current_attribute st' = None"
    by blast
  have ne: "split_on (CHR '','') (join_numbers nums) \<noteq> []"
    using sp a by auto
  have "strip (last (split_on (CHR '','') (join_numbers nums))) = last nums"
    using sp ne by (metis last_map)
  with st'(3) have c: "current_control st' = Some (enhancement_id base (last nums))" by simp
  have "\<forall>n \<in> set nums.
          overlay_controls st' (enhancement_id base n) =
            Some \<lparr>name = (case overlay_controls st base of None \<Rightarrow> [] | Some c \<Rightarrow> name c),
                  attributes = Map.empty, page = page_num\<rparr>"
  proof
    fix k assume "k \<in> set nums"
    then have "k \<in> strip ` set (split_on (CHR '','') (join_numbers nums))"
      using sp by (metis set_map)
    then obtain x where "x \<in> set (split_on (CHR '','') (join_numbers nums))" "k = strip x"
      by auto
    with st'(2) show "overlay_controls st' (enhancement_id base k) =
            Some \<lparr>name = (case overlay_controls st base of None \<Rightarrow> [] | Some c \<Rightarrow> name c),
                  attributes = Map.empty, page = page_num\<rparr>"
      by simp
  qed
  with st'(1,4,5) c
  show "\<exists>st'. line_step page_num st l = Some st'
              \<and> (\<forall>n \<in> set nums.
                    overlay_controls st' (enhancement_id base n) =
                      Some \<lparr>name = (case overlay_controls st base of
                                       None \<Rightarrow> [] | Some c \<Rightarrow> name c),
                            attributes = Map.empty, page = page_num\<rparr>)
              \<and> current_control st' = Some (enhancement_id base (last nums))
              \<and> current_base_control st' = Some base
              \<and> current_attribute st' = None"
    by blast
qed

theorem enhancement_line_step_witness:
  "current_base_control sample_state = Some ''AC-3''
   \<and> line_text sample_enhancement_line = ''Control Enhancement: '' @ join_numbers [''4'', ''5'', ''6'']
   \<and> is_number ''4'' \<and> is_number ''5'' \<and> is_number ''6''
   \<and> flexible_enhancement_match (line_text sample_enhancement_line) = Some ''4, 5, 6''
   \<and> (\<exists>st'. line_step 7 sample_state sample_enhancement_line = Some st'
         \<and> overlay_controls st' ''AC-3(4)''
             = Some \<lparr>name = ''ACCESS ENFORCEMENT'', attributes = Map.empty, page = 7\<rparr>
         \<and> overlay_controls st' ''AC-3(5)''
             = Some \<lparr>name = ''ACCESS ENFORCEMENT'', attributes = Map.empty, page = 7\<rparr>
         \<and> overlay_controls st' ''AC-3(6)''
             = Some \<lparr>name = ''ACCESS ENFORCEMENT'', attributes = Map.empty, page = 7\<rparr>
         \<and> current_control st' = Some ''AC-3(6)''
         \<and> current_attribute st' = None)"
proof -
  have b: "current_base_control sample_state = Some ''AC-3''"
    by (simp add: sample_state_def)
  have ne: "''AC-3'' \<noteq> []" by simp
  have t: "line_text sample_enhancement_line
             = ''Control Enhancement: '' @ join_numbers [''4'', ''5'', ''6'']"
    by (simp add: sample_enhancement_line_def)
  have d: "\<forall>m \<in> set [''4'', ''5'', ''6'']. is_number m"
    by (simp add: is_number_def is_digit_def)
  have m: "flexible_enhancement_match (line_text sample_enhancement_line) = Some ''4, 5, 6''"
    by code_simp
  have n: "(case overlay_controls sample_state ''AC-3'' of None \<Rightarrow> [] | Some c \<Rightarrow> name c)
             = ''ACCESS ENFORCEMENT''"
    by (simp add: sample_state_def)
  note u = enhancement_line_step[OF b ne, of sample_enhancement_line 7, THEN conjunct2,
      rule_format, of "[''4'', ''5'', ''6'']"]
  from u t d obtain st' where
    st': "line_step 7 sample_state sample_enhancement_line = Some st'"
      "\<forall>n \<in> set [''4'', ''5'', ''6''].
         overlay_controls st' (enhancement_id ''AC-3'' n) =
           Some \<lparr>name = (case overlay_controls sample_state ''AC-3'' of
                            None \<Rightarrow> [] | Some c \<Rightarrow> name c),
                 attributes = Map.empty, page = 7\<rparr>"
      "current_control st' = Some (enhancement_id ''AC-3'' (last [''4'', ''5'', ''6'']))"
      "current_attribute st' = None"
    by auto
  from st'(2) have "overlay_controls st' ''AC-3(4)''
             = Some \<lparr>name = ''ACCESS ENFORCEMENT'', attributes = Map.empty, page = 7\<rparr>"
    and "overlay_controls st' ''AC-3(5)''
             = Some \<lparr>name = ''ACCESS ENFORCEMENT'', attributes = Map.empty, page = 7\<rparr>"
    and "overlay_controls st' ''AC-3(6)''
             = Some \<lparr>name = ''ACCESS ENFORCEMENT'', attributes = Map.empty, page = 7\<rparr>"
    unfolding n by (simp_all add: enhancement_id_def)
  moreover from st'(3) have "current_control st' = Some ''AC-3(6)''"
    by (simp add: enhancement_id_def)
  ultimately have e: "\<exists>st'. line_step 7 sample_state sample_enhancement_line = Some st'
         \<and> overlay_controls st' ''AC-3(4)''
             = Some \<lparr>name = ''ACCESS ENFORCEMENT'', attributes = Map.empty, page = 7\<rparr>
         \<and> overlay_controls st' ''AC-3(5)''
             = Some \<lparr>name = ''ACCESS ENFORCEMENT'', attributes = Map.empty, page = 7\<rparr>
         \<and> overlay_controls st' ''AC-3(6)''
             = Some \<lparr>name = ''ACCESS ENFORCEMENT'', attributes = Map.empty, page = 7\<rparr>
         \<and> current_control st' = Some ''AC-3(6)''
         \<and> current_attribute st' = None"
    using st'(1,4) by blast
  from d have i: "is_number ''4''" "is_number ''5''" "is_number ''6''" by simp_all
  from b t i m e show ?thesis by (intro conjI) assumption+
qed

section \<open>Continuation lines of an attribute\<close>

text \<open>
  In the step of \<open>_find_controls_and_attributes\<close> a line with a colon, read while a
  control is current, takes the attribute branch; when no known label starts the line,
  that branch leaves the state as it is, and the continuation branch, an \<open>elif\<close> of the
  same test, is not tried.
\<close>

lemma colon_line_dropped:
  assumes "base_control_match (line_text l) = None \<or> \<not> list_ex (\<lambda>b. b) (formats l)"
    and "flexible_enhancement_match (line_text l) = None"
    and "truthy_str (current_control st)"
    and "CHR '':'' \<in> set (line_text l)"
    and "extract_attribute_from_line (line_text l) = None"
  shows "line_step page_num st l = Some st"
  using assms by (auto simp: line_step_def Let_def)

text \<open>A line without a colon that is none of the three kinds is appended.\<close>

lemma plain_line_appended:
  assumes "base_control_match (line_text l) = None"
    and "flexible_enhancement_match (line_text l) = None"
    and "extract_attribute_from_line (line_text l) = None"
    and "current_control st = Some cid" and "cid \<noteq> []"
    and "current_attribute st = Some a" and "a \<noteq> []"
    and "CHR '':'' \<notin> set (line_text l)"
    and "strip (line_text l) \<noteq> []"
    and "overlay_controls st cid = Some c"
    and "attributes c a = Some old"
  shows "line_step page_num st l =
           Some (st\<lparr>overlay_controls :=
                   (overlay_controls st)(cid \<mapsto>
                     c\<lparr>attributes := (attributes c)(a \<mapsto> old @ '' '' @ strip (line_text l))\<rparr>)\<rparr>)"
  using assms by (simp add: line_step_def Let_def truthy_str_def)

text \<open>
  The loop of \<open>extract_controls_from_pdf\<close> appends every line that is no header of a
  control and starts with none of its five field labels, with or without a colon.
\<close>

lemma ci_continuation_appended:
  assumes "line = strip raw"
    and "\<not> (contains ''7.'' line \<and> contains ''Implementation Considerations'' line)"
    and "line \<noteq> []" and "line \<noteq> ''Classified System Overlay''" and "\<not> py_isdigit line"
    and "\<not> contains ''Attachment 5 to Appendix E'' line" and "line \<noteq> ''09/30/2022''"
    and "parse_control_header line = None"
    and "ci_current_control st = Some cid" and "cid \<noteq> []"
    and "\<not> prefix ''Justification to Select:'' line"
    and "\<not> prefix ''Parameter Value:'' line"
    and "\<not> prefix ''Guidance:'' line"
    and "\<not> prefix ''Reference(s):'' line" and "\<not> prefix ''Reference:'' line"
    and "ci_current_field st = Some f"
    and "ci_controls st cid = Some c"
  shows "ci_line_step st raw =
           Next_Line (st\<lparr>ci_controls := (ci_controls st)(cid \<mapsto>
             set_field f (case get_field f c of
                            None \<Rightarrow> line
                          | Some old \<Rightarrow> if old \<noteq> [] then old @ '' '' @ line else line) c)\<rparr>)"
  using assms(2-) unfolding ci_line_step_def assms(1)[symmetric] Let_def
  by (simp add: truthy_str_def)

text \<open>
  Claim C6. The control AC-3 is current and its attribute Supplemental Guidance, which
  holds \<open>Systems apply\<close>, is the current attribute. The line
  \<open>the following: role-based access\<close> is not empty, is no base control line, no
  enhancement header and starts with no known label. The step of
  \<open>_find_controls_and_attributes\<close> leaves the state as it is, so the text of the line is
  lost: the attribute still holds \<open>Systems apply\<close> at the end of the page, while the same
  line without its colon is appended. The loop of \<open>extract_controls_from_pdf\<close> appends
  the line with the colon.
\<close>

theorem colon_continuation_dropped:
  "current_control sample_state = Some ''AC-3''
   \<and> current_attribute sample_state = Some ''Supplemental Guidance''
   \<and> map_option (\<lambda>c. attributes c ''Supplemental Guidance'')
        (overlay_controls sample_state ''AC-3'') = Some (Some ''Systems apply'')
   \<and> strip (line_text sample_colon_line) = ''the following: role-based access''
   \<and> base_control_match (line_text sample_colon_line) = None
   \<and> flexible_enhancement_match (line_text sample_colon_line) = None
   \<and> extract_attribute_from_line (line_text sample_colon_line) = None
   \<and> line_step 6 sample_state sample_colon_line = Some sample_state
   \<and> map_option (\<lambda>c. attributes c ''Supplemental Guidance'')
        (overlay_controls (process_page_lines 6 initial_state sample_page) ''AC-3'')
        = Some (Some ''Systems apply'')
   \<and> map_option (\<lambda>c. attributes c ''Supplemental Guidance'')
        (overlay_controls (process_page_lines 6 initial_state plain_page) ''AC-3'')
        = Some (Some ''Systems apply the following role-based access'')
   \<and> (\<exists>st'. ci_line_step sample_ci_state (line_text sample_colon_line) = Next_Line st'
         \<and> map_option ci_guidance (ci_controls st' ''AC-3'')
             = Some (Some ''Systems apply the following: role-based access''))
   \<and> map_option ci_guidance
        (outcome_controls (ci_page_lines initial_ci_state sample_ci_page) ''AC-3'')
        = Some (Some ''Systems apply the following: role-based access'')"
proof -
  have s: "strip (line_text sample_colon_line) = ''the following: role-based access''"
    by code_simp
  have b: "base_control_match (line_text sample_colon_line) = None" by code_simp
  have e: "flexible_enhancement_match (line_text sample_colon_line) = None" by code_simp
  have x: "extract_attribute_from_line (line_text sample_colon_line) = None" by code_simp
  have c: "CHR '':'' \<in> set (line_text sample_colon_line)"
    by (simp add: sample_colon_line_def)
  have t: "truthy_str (current_control sample_state)"
    by (simp add: sample_state_def truthy_str_def)
  have d: "line_step 6 sample_state sample_colon_line = Some sample_state"
    by (intro colon_line_dropped disjI1 b e t c x)
  have k1: "current_control sample_state = Some ''AC-3''" by (simp add: sample_state_def)
  have k2: "current_attribute sample_state = Some ''Supplemental Guidance''"
    by (simp add: sample_state_def)
  have k3: "map_option (\<lambda>c. attributes c ''Supplemental Guidance'')
              (overlay_controls sample_state ''AC-3'') = Some (Some ''Systems apply'')"
    by (simp add: sample_state_def)
  have g1: "map_option (\<lambda>c. attributes c ''Supplemental Guidance'')
              (overlay_controls (process_page_lines 6 initial_state sample_page) ''AC-3'')
              = Some (Some ''Systems apply'')"
    by code_simp
  have g2: "map_option (\<lambda>c. attributes c ''Supplemental Guidance'')
              (overlay_controls (process_page_lines 6 initial_state plain_page) ''AC-3'')
              = Some (Some ''Systems apply the following role-based access'')"
    by code_simp
  have h: "parse_control_header ''the following: role-based access'' = None" by code_simp
  have p: "\<not> (contains ''7.'' ''the following: role-based access''
              \<and> contains ''Implementation Considerations'' ''the following: role-based access'')"
    "\<not> py_isdigit ''the following: role-based access''"
    "\<not> contains ''Attachment 5 to Appendix E'' ''the following: role-based access''"
    by code_simp+
  have n: "ci_line_step sample_ci_state (line_text sample_colon_line) =
             Next_Line (sample_ci_state\<lparr>ci_controls := (ci_controls sample_ci_state)(''AC-3'' \<mapsto>
               set_field Guidance_Field
                 (case get_field Guidance_Field
                         \<lparr>ci_control_id = ''AC-3'', ci_name = ''Access Enforcement'',
                          ci_selected = True, ci_justification = None,
                          ci_parameter_value = None, ci_guidance = Some ''Systems apply'',
                          ci_references = None\<rparr> of
                    None \<Rightarrow> ''the following: role-based access''
                  | Some old \<Rightarrow> if old \<noteq> []
                                then old @ '' '' @ ''the following: role-based access''
                                else ''the following: role-based access'')
                 \<lparr>ci_control_id = ''AC-3'', ci_name = ''Access Enforcement'',
                  ci_selected = True, ci_justification = None,
                  ci_parameter_value = None, ci_guidance = Some ''Systems apply'',
                  ci_references = None\<rparr>)\<rparr>)"
    by (rule ci_continuation_appended[OF s[symmetric] p(1) _ _ p(2) p(3) _ h])
       (simp_all add: sample_ci_state_def)
  have m: "\<exists>st'. ci_line_step sample_ci_state (line_text sample_colon_line) = Next_Line st'
             \<and> map_option ci_guidance (ci_controls st' ''AC-3'')
                 = Some (Some ''Systems apply the following: role-based access'')"
    unfolding n by (simp add: set_field_def get_field_def)
  have g3: "map_option ci_guidance
              (outcome_controls (ci_page_lines initial_ci_state sample_ci_page) ''AC-3'')
              = Some (Some ''Systems apply the following: role-based access'')"
    by code_simp
  from k1 k2 k3 s b e x d g1 g2 m g3 show ?thesis by (intro conjI) assumption+
qed

text \<open>
  The two results that differ: on the same three lines the superseded pipeline keeps
  \<open>Systems apply\<close> and the current pipeline has the text of the third line behind it.
\<close>

theorem colon_continuation_dropped_witness:
  "line_step 6 sample_state sample_colon_line = Some sample_state
   \<and> map_option (\<lambda>c. attributes c ''Supplemental Guidance'')
        (overlay_controls (process_page_lines 6 initial_state sample_page) ''AC-3'')
        = Some (Some ''Systems apply'')
   \<and> map_option ci_guidance
        (outcome_controls (ci_page_lines initial_ci_state sample_ci_page) ''AC-3'')
        = Some (Some ''Systems apply the following: role-based access'')"
  using colon_continuation_dropped by (elim conjE, intro conjI) assumption+

section \<open>The withdrawn marker and the other fields of a record\<close>






















end
